theory Spec2Isabelle
  imports Main
begin

section \<open>Strings and arrays of the host language\<close>

text \<open>
  A string is a list of code units; the model covers code units below 256. The array
  primitives follow the host language: reading outside an array gives \<open>undefined\<close>
  (here \<open>None\<close>), \<open>x || ''\<close> turns \<open>undefined\<close> and the empty string into the empty string.
  An array is a list of any length and an index is a natural number: the host bounds an
  array at \<open>2^32 - 1\<close> entries and rounds a parsed number above \<open>2^53\<close>, so the model is
  that of the code for the indices an array of the host can hold.
\<close>

definition CR :: char where
  "CR = CHR 0x0D"

definition LF :: char where
  "LF = CHR 0x0A"

definition CRLF :: string where
  "CRLF = [CR, LF]"

definition isWhiteSpace :: "char \<Rightarrow> bool" where
  \<comment> \<open>the white space and line terminators that \<open>trim\<close> removes, below 256\<close>
  "isWhiteSpace c \<longleftrightarrow>
     c \<in> set [CHR 0x09, CHR 0x0A, CHR 0x0B, CHR 0x0C, CHR 0x0D, CHR 0x20, CHR 0xA0]"

definition trim :: "string \<Rightarrow> string" where
  "trim s = rev (dropWhile isWhiteSpace (rev (dropWhile isWhiteSpace s)))"

definition isDigit :: "char \<Rightarrow> bool" where
  "isDigit c \<longleftrightarrow> (48::nat) \<le> of_char c \<and> of_char c \<le> (57::nat)"

definition isUpper :: "char \<Rightarrow> bool" where
  "isUpper c \<longleftrightarrow> (65::nat) \<le> of_char c \<and> of_char c \<le> (90::nat)"

definition parseInt :: "string \<Rightarrow> nat" where
  \<comment> \<open>\<open>parseInt(s, 10)\<close> on a string of decimal digits\<close>
  "parseInt s = foldl (\<lambda>n c. 10 * n + (of_char c - 48)) 0 s"

fun split :: "char \<Rightarrow> string \<Rightarrow> string list" where
  \<comment> \<open>\<open>s.split(d)\<close> for a separator of one character\<close>
  "split d [] = [[]]"
| "split d (c # cs) =
     (if c = d then [] # split d cs
      else (case split d cs of [] \<Rightarrow> [[c]] | x # xs \<Rightarrow> (c # x) # xs))"

function splitLines :: "string \<Rightarrow> string list" where
  \<comment> \<open>\<open>s.split(/\r?\n/)\<close>\<close>
  "splitLines [] = [[]]"
| "splitLines (c # cs) =
     (if c = CR \<and> take 1 cs = [LF] then [] # splitLines (drop 1 cs)
      else if c = LF then [] # splitLines cs
      else (case splitLines cs of [] \<Rightarrow> [[c]] | x # xs \<Rightarrow> (c # x) # xs))"
  by pat_completeness auto
termination
  by (relation "measure length") auto

fun join :: "string \<Rightarrow> string list \<Rightarrow> string" where
  \<comment> \<open>\<open>xs.join(sep)\<close> on an array of strings\<close>
  "join sep [] = []"
| "join sep [x] = x"
| "join sep (x # y # ys) = x @ sep @ join sep (y # ys)"

definition arrayGet :: "'a list \<Rightarrow> int \<Rightarrow> 'a option" where
  \<comment> \<open>\<open>xs[i]\<close>: \<open>undefined\<close> outside the array, also at \<open>-1\<close>\<close>
  "arrayGet xs i = (if 0 \<le> i \<and> i < int (length xs) then Some (xs ! nat i) else None)"

definition orEmpty :: "string option \<Rightarrow> string" where
  \<comment> \<open>\<open>x || ''\<close>\<close>
  "orEmpty x = (case x of None \<Rightarrow> [] | Some s \<Rightarrow> s)"

definition orEmptyList :: "'a list option \<Rightarrow> 'a list" where
  "orEmptyList x = (case x of None \<Rightarrow> [] | Some xs \<Rightarrow> xs)"

function pushUntil :: "nat \<Rightarrow> string list \<Rightarrow> string list" where
  \<comment> \<open>\<open>while (xs.length < n) xs.push('')\<close>\<close>
  "pushUntil n xs = (if length xs < n then pushUntil n (xs @ [[]]) else xs)"
  by pat_completeness auto
termination
  by (relation "measure (\<lambda>(n, xs). n - length xs)") auto

declare pushUntil.simps [simp del]

section \<open>Segment, field, component\<close>

text \<open>
  The classes of \<open>Segment.ts\<close>. Every object lives in a store and is addressed by a
  reference, so that the model shows which object a write reaches. A segment holds its
  fields as raw strings; a field view and a component view are separate objects, built
  from a copy of the raw string each time the segment (or the field) is indexed.
\<close>

record Segment =
  fieldStrings :: "string list"
    \<comment> \<open>the array \<open>fields\<close> of the source; position 0 holds the name\<close>
  name :: string

record HL7Field =
  fieldValue :: string
    \<comment> \<open>\<open>value\<close> in the source\<close>
  components :: "string list"
  componentsMinusOne :: "string option"
    \<comment> \<open>the property \<open>-1\<close> of the array, which an indexed write at index 0 sets\<close>

record HL7Component =
  componentValue :: string
    \<comment> \<open>\<open>value\<close> in the source\<close>
  subcomponents :: "string list"
  subcomponentsMinusOne :: "string option"

type_synonym ref = nat

record heap =
  segmentObjs :: "ref \<Rightarrow> Segment"
  fieldObjs :: "ref \<Rightarrow> HL7Field"
  componentObjs :: "ref \<Rightarrow> HL7Component"
  nextRef :: ref

definition emptyHeap :: heap where
  "emptyHeap = \<lparr>segmentObjs = (\<lambda>_. \<lparr>fieldStrings = [], name = []\<rparr>),
                fieldObjs = (\<lambda>_. \<lparr>fieldValue = [], components = [], componentsMinusOne = None\<rparr>),
                componentObjs = (\<lambda>_. \<lparr>componentValue = [], subcomponents = [],
                                       subcomponentsMinusOne = None\<rparr>),
                nextRef = 0\<rparr>"

definition mkSegment :: "string \<Rightarrow> Segment" where
  \<comment> \<open>the fields of \<open>new Segment(line)\<close>\<close>
  "mkSegment line = (let fs = split (CHR ''|'') line in
     \<lparr>fieldStrings = fs, name = orEmpty (arrayGet fs 0)\<rparr>)"

definition newSegment :: "string \<Rightarrow> heap \<Rightarrow> ref \<times> heap" where
  "newSegment line h = (nextRef h,
     h\<lparr>segmentObjs := (segmentObjs h)(nextRef h := mkSegment line), nextRef := Suc (nextRef h)\<rparr>)"

definition mkHL7Field :: "string \<Rightarrow> HL7Field" where
  "mkHL7Field v = \<lparr>fieldValue = v, components = split (CHR ''^'') v, componentsMinusOne = None\<rparr>"

definition newHL7Field :: "string \<Rightarrow> heap \<Rightarrow> ref \<times> heap" where
  "newHL7Field v h = (nextRef h,
     h\<lparr>fieldObjs := (fieldObjs h)(nextRef h := mkHL7Field v), nextRef := Suc (nextRef h)\<rparr>)"

definition mkHL7Component :: "string \<Rightarrow> HL7Component" where
  "mkHL7Component v =
     \<lparr>componentValue = v, subcomponents = split (CHR ''&'') v, subcomponentsMinusOne = None\<rparr>"

definition newHL7Component :: "string \<Rightarrow> heap \<Rightarrow> ref \<times> heap" where
  "newHL7Component v h = (nextRef h,
     h\<lparr>componentObjs := (componentObjs h)(nextRef h := mkHL7Component v),
       nextRef := Suc (nextRef h)\<rparr>)"

subsection \<open>Methods of Segment\<close>

definition getName :: "Segment \<Rightarrow> string" where
  "getName s = name s"

definition getFields :: "Segment \<Rightarrow> string list" where
  "getFields s = fieldStrings s"

definition getField :: "Segment \<Rightarrow> nat \<Rightarrow> string" where
  "getField s index = orEmpty (arrayGet (fieldStrings s) (int index))"

definition getComponent :: "Segment \<Rightarrow> nat \<Rightarrow> nat \<Rightarrow> string" where
  "getComponent s fieldIndex componentIndex =
     (let field = getField s fieldIndex in
      if field = [] then []
      else orEmpty (arrayGet (split (CHR ''^'') field) (int componentIndex - 1)))"

definition getSubcomponent :: "Segment \<Rightarrow> nat \<Rightarrow> nat \<Rightarrow> nat \<Rightarrow> string" where
  "getSubcomponent s fieldIndex componentIndex subcomponentIndex =
     (let component = getComponent s fieldIndex componentIndex in
      if component = [] then []
      else orEmpty (arrayGet (split (CHR ''&'') component) (int subcomponentIndex - 1)))"

definition segmentToString :: "Segment \<Rightarrow> string" where
  "segmentToString s = join ''|'' (fieldStrings s)"

subsection \<open>Indexed access: the proxy handlers\<close>

definition segmentIndexGet :: "ref \<Rightarrow> nat \<Rightarrow> heap \<Rightarrow> ref option \<times> heap" where
  \<comment> \<open>\<open>segment[index]\<close>: \<open>null\<close> for a missing or empty field, else a new field view\<close>
  "segmentIndexGet seg index h =
     (let fieldValue = getField (segmentObjs h seg) index in
      if fieldValue = [] then (None, h)
      else (let (r, h') = newHL7Field fieldValue h in (Some r, h')))"

definition segmentIndexSet :: "ref \<Rightarrow> nat \<Rightarrow> string \<Rightarrow> heap \<Rightarrow> heap" where
  \<comment> \<open>\<open>segment[index] = value\<close>\<close>
  "segmentIndexSet seg index v h =
     (let s = segmentObjs h seg;
          fs = pushUntil (Suc index) (fieldStrings s)
      in h\<lparr>segmentObjs := (segmentObjs h)(seg := s\<lparr>fieldStrings := fs[index := v]\<rparr>)\<rparr>)"

definition fieldComponentAt :: "HL7Field \<Rightarrow> nat \<Rightarrow> string option" where
  \<comment> \<open>\<open>target.components[index - 1]\<close>\<close>
  "fieldComponentAt f index =
     (if index = 0 then componentsMinusOne f else arrayGet (components f) (int index - 1))"

definition fieldIndexGet :: "ref \<Rightarrow> nat \<Rightarrow> heap \<Rightarrow> ref option \<times> heap" where
  \<comment> \<open>\<open>field[index]\<close>: \<open>null\<close> past the last component, else a new component view\<close>
  "fieldIndexGet fld index h =
     (case fieldComponentAt (fieldObjs h fld) index of
        None \<Rightarrow> (None, h)
      | Some component \<Rightarrow> (let (r, h') = newHL7Component component h in (Some r, h')))"

definition fieldIndexSet :: "ref \<Rightarrow> nat \<Rightarrow> string \<Rightarrow> heap \<Rightarrow> heap" where
  \<comment> \<open>\<open>field[index] = value\<close>: the write reaches the view and nothing else\<close>
  "fieldIndexSet fld index v h =
     (let f = fieldObjs h fld;
          cs = pushUntil index (components f);
          f' = (if index = 0 then f\<lparr>components := cs, componentsMinusOne := Some v\<rparr>
                else f\<lparr>components := cs[index - 1 := v]\<rparr>)
      in h\<lparr>fieldObjs := (fieldObjs h)(fld := f'\<lparr>fieldValue := join ''^'' (components f')\<rparr>)\<rparr>)"

definition fieldToString :: "HL7Field \<Rightarrow> string" where
  "fieldToString f = fieldValue f"

definition getComponents :: "HL7Field \<Rightarrow> string list" where
  "getComponents f = components f"

definition componentSubcomponentAt :: "HL7Component \<Rightarrow> nat \<Rightarrow> string option" where
  "componentSubcomponentAt c index =
     (if index = 0 then subcomponentsMinusOne c else arrayGet (subcomponents c) (int index - 1))"

definition componentIndexGet :: "ref \<Rightarrow> nat \<Rightarrow> heap \<Rightarrow> string option" where
  \<comment> \<open>\<open>component[index]\<close>: \<open>null\<close>, or the value an immutable HL7Subcomponent wraps\<close>
  "componentIndexGet cmp index h = componentSubcomponentAt (componentObjs h cmp) index"

definition componentIndexSet :: "ref \<Rightarrow> nat \<Rightarrow> string \<Rightarrow> heap \<Rightarrow> heap" where
  "componentIndexSet cmp index v h =
     (let c = componentObjs h cmp;
          ss = pushUntil index (subcomponents c);
          c' = (if index = 0 then c\<lparr>subcomponents := ss, subcomponentsMinusOne := Some v\<rparr>
                else c\<lparr>subcomponents := ss[index - 1 := v]\<rparr>)
      in h\<lparr>componentObjs :=
            (componentObjs h)(cmp := c'\<lparr>componentValue := join ''&'' (subcomponents c')\<rparr>)\<rparr>)"

section \<open>The message\<close>

text \<open>
  \<open>HL7Message.ts\<close>. The message holds the ordered list of its segments and an index from
  segment name to one segment or to an array of segments; both hold references to the same
  segment objects. The index is an object of the host: the finite map holds the
  properties of its own, and every object also inherits the properties of
  \<open>Object.prototype\<close> (\<open>objectPrototypeKeys\<close>), which a lookup by name finds as well.

  A value of the type \<open>HL7Message\<close> is a message whose members are its own: the two
  fields and the methods of the class. \<open>get\<close>, \<open>set\<close> and \<open>toString\<close> are modelled on such
  messages. The constructor copies each first segment to a property of the message named
  after the segment; a segment named after a member replaces that member, and the
  constructor then returns an object outside this type (\<open>MembersOverwritten\<close>). The
  properties named after other segments are read by no method modelled here. A path names
  a segment in capitals, so no path names a member or an inherited property.
  \<open>get\<close> is the same in both variants of the source; the warning that the first variant
  of \<open>parsePath\<close> prints for a rejected path is not modelled.
\<close>

datatype error = TypeError

datatype segmentData = Single ref | Array "ref list"

record HL7Message =
  segments :: "ref list"
  parsedSegments :: "string \<rightharpoonup> segmentData"

datatype constructed =
    Throws error
  | Message "HL7Message \<times> heap"
  | MembersOverwritten "string list"

definition objectPrototypeKeys :: "string list" where
  \<comment> \<open>the properties that every object inherits from \<open>Object.prototype\<close>\<close>
  "objectPrototypeKeys =
     [''constructor'', ''__defineGetter__'', ''__defineSetter__'', ''hasOwnProperty'',
      ''__lookupGetter__'', ''__lookupSetter__'', ''isPrototypeOf'', ''propertyIsEnumerable'',
      ''toString'', ''valueOf'', ''__proto__'', ''toLocaleString'']"

definition memberNames :: "string list" where
  \<comment> \<open>the fields and the methods of the class \<open>HL7Message\<close>\<close>
  "memberNames =
     [''segments'', ''parsedSegments'', ''set'', ''get'', ''getAllSegments'', ''getSegments'',
      ''getParsedSegments'', ''getSegment'', ''hasSegment'', ''parsePath'', ''toString'',
      ''assignSegmentProperties'', ''parseSegmentsToObject'']"

record PathParts =
  segmentName :: string
  fieldIndex :: nat
  componentIndex :: "nat option"
  subcomponentIndex :: "nat option"

subsection \<open>parsePath\<close>

definition isDigits :: "string \<Rightarrow> bool" where
  \<comment> \<open>\<open>\d+\<close>\<close>
  "isDigits s \<longleftrightarrow> s \<noteq> [] \<and> list_all isDigit s"

definition isSegmentName :: "string \<Rightarrow> bool" where
  \<comment> \<open>\<open>[A-Z]{2,3}[0-9]?\<close>\<close>
  "isSegmentName s \<longleftrightarrow>
     (let letters = takeWhile isUpper s; rest = dropWhile isUpper s
      in (length letters = 2 \<or> length letters = 3) \<and>
         (rest = [] \<or> (length rest = 1 \<and> list_all isDigit rest)))"

definition parsePath :: "string \<Rightarrow> PathParts option" where
  \<comment> \<open>the match of \<open>/^([A-Z]{2,3}[0-9]?)-(\d+)(?:\.(\d+))?(?:\.(\d+))?$/\<close> and its groups:
      the name cannot hold a dash, so it ends at the first one\<close>
  "parsePath path =
     (let nm = takeWhile (\<lambda>c. c \<noteq> CHR ''-'') path;
          rest = dropWhile (\<lambda>c. c \<noteq> CHR ''-'') path
      in if rest = [] \<or> \<not> isSegmentName nm then None
         else (case split (CHR ''.'') (tl rest) of
                 [f] \<Rightarrow>
                   if isDigits f
                   then Some \<lparr>segmentName = nm, fieldIndex = parseInt f,
                              componentIndex = None, subcomponentIndex = None\<rparr>
                   else None
               | [f, c] \<Rightarrow>
                   if isDigits f \<and> isDigits c
                   then Some \<lparr>segmentName = nm, fieldIndex = parseInt f,
                              componentIndex = Some (parseInt c), subcomponentIndex = None\<rparr>
                   else None
               | [f, c, s] \<Rightarrow>
                   if isDigits f \<and> isDigits c \<and> isDigits s
                   then Some \<lparr>segmentName = nm, fieldIndex = parseInt f,
                              componentIndex = Some (parseInt c),
                              subcomponentIndex = Some (parseInt s)\<rparr>
                   else None
               | _ \<Rightarrow> None))"

definition pathGrammar :: "string \<Rightarrow> bool" where
  \<comment> \<open>the grammar as the specification words it: a name of two or three capitals and at most
      one digit, a dash, a field number, and up to two dotted numbers\<close>
  "pathGrammar path \<longleftrightarrow>
     (\<exists>letters digit f c s.
        path = letters @ digit @ ''-'' @ f @ c @ s \<and>
        (length letters = 2 \<or> length letters = 3) \<and> (\<forall>x \<in> set letters. isUpper x) \<and>
        (digit = [] \<or> (\<exists>d. digit = [d] \<and> isDigit d)) \<and>
        isDigits f \<and>
        (c = [] \<or> (\<exists>n. c = CHR ''.'' # n \<and> isDigits n)) \<and>
        (s = [] \<or> (\<exists>n. s = CHR ''.'' # n \<and> isDigits n)))"

subsection \<open>The constructor\<close>

fun newSegments :: "string list \<Rightarrow> heap \<Rightarrow> ref list \<times> heap" where
  \<comment> \<open>\<open>lines.map(line => new Segment(line))\<close>\<close>
  "newSegments [] h = ([], h)"
| "newSegments (line # rest) h =
     (let (r, h') = newSegment line h; (rs, h'') = newSegments rest h' in (r # rs, h''))"

fun groupByName ::
  "heap \<Rightarrow> ref list \<Rightarrow> (string \<rightharpoonup> ref list) \<Rightarrow> error + (string \<rightharpoonup> ref list)" where
  \<comment> \<open>the first loop of \<open>parseSegmentsToObject\<close>, on an object that starts as \<open>{}\<close>:
      \<open>if (!parsed[name]) parsed[name] = []; parsed[name].push(segment)\<close>. For a name that
      the object inherits, \<open>parsed[name]\<close> is the inherited member, which is truthy and
      has no \<open>push\<close>: the call throws\<close>
  "groupByName h [] parsed = Inr parsed"
| "groupByName h (r # rs) parsed =
     (let nm = getName (segmentObjs h r)
      in case parsed nm of
           Some ss \<Rightarrow> groupByName h rs (parsed(nm \<mapsto> ss @ [r]))
         | None \<Rightarrow>
             if nm \<in> set objectPrototypeKeys then Inl TypeError
             else groupByName h rs (parsed(nm \<mapsto> [r])))"

definition parseSegmentsToObject ::
  "ref list \<Rightarrow> heap \<Rightarrow> error + (string \<rightharpoonup> segmentData)" where
  "parseSegmentsToObject segs h =
     (case groupByName h segs Map.empty of
        Inl e \<Rightarrow> Inl e
      | Inr parsed \<Rightarrow>
          Inr (\<lambda>key. case parsed key of
                       None \<Rightarrow> None
                     | Some ss \<Rightarrow>
                         (case ss of
                            [] \<Rightarrow> None
                          | [s] \<Rightarrow> Some (Single s)
                          | _ \<Rightarrow> Some (Array ss))))"

definition assignSegmentProperties :: "ref list \<Rightarrow> heap \<Rightarrow> string list" where
  \<comment> \<open>the loop \<open>this[segmentName] = ...\<close> over the keys of the index, which are the names
      of the segments: the members of the message that it overwrites (in no given order)\<close>
  "assignSegmentProperties segs h =
     filter (\<lambda>key. key \<in> set memberNames) (remdups (map (\<lambda>r. getName (segmentObjs h r)) segs))"

definition newHL7Message :: "string \<Rightarrow> constructed" where
  "newHL7Message rawHL7 =
     (let lines = filter (\<lambda>line. trim line \<noteq> []) (splitLines rawHL7);
          (segs, h) = newSegments lines emptyHeap
      in case parseSegmentsToObject segs h of
           Inl e \<Rightarrow> Throws e
         | Inr index \<Rightarrow>
             (case assignSegmentProperties segs h of
                [] \<Rightarrow> Message (\<lparr>segments = segs, parsedSegments = index\<rparr>, h)
              | key # keys \<Rightarrow> MembersOverwritten (key # keys)))"

definition thrown :: "constructed \<Rightarrow> error option" where
  "thrown c = (case c of Throws e \<Rightarrow> Some e | _ \<Rightarrow> None)"

definition overwrittenMembers :: "constructed \<Rightarrow> string list" where
  "overwrittenMembers c = (case c of MembersOverwritten keys \<Rightarrow> keys | _ \<Rightarrow> [])"

definition isMessage :: "constructed \<Rightarrow> bool" where
  "isMessage c = (case c of Message _ \<Rightarrow> True | _ \<Rightarrow> False)"

definition messageOf :: "constructed \<Rightarrow> HL7Message \<times> heap" where
  \<comment> \<open>the message that the constructor returned; the message of no segments otherwise\<close>
  "messageOf c =
     (case c of
        Message \<sigma> \<Rightarrow> \<sigma>
      | _ \<Rightarrow> (\<lparr>segments = [], parsedSegments = Map.empty\<rparr>, emptyHeap))"

subsection \<open>Reading\<close>

definition firstSegment :: "HL7Message \<Rightarrow> string \<Rightarrow> ref option" where
  \<comment> \<open>\<open>Array.isArray(segmentData) ? segmentData[0] : segmentData\<close>, for the name of a path\<close>
  "firstSegment m nm =
     (case parsedSegments m nm of
        None \<Rightarrow> None
      | Some (Array rs) \<Rightarrow> arrayGet rs 0
      | Some (Single r) \<Rightarrow> Some r)"

definition getSegments :: "HL7Message \<Rightarrow> ref list" where
  "getSegments m = segments m"

definition hasSegment :: "HL7Message \<Rightarrow> string \<Rightarrow> bool" where
  \<comment> \<open>\<open>name in this.parsedSegments\<close>: a property of its own or an inherited one\<close>
  "hasSegment m nm =
     (case parsedSegments m nm of
        Some _ \<Rightarrow> True
      | None \<Rightarrow> nm \<in> set objectPrototypeKeys)"

definition get :: "HL7Message \<Rightarrow> heap \<Rightarrow> string \<Rightarrow> string" where
  "get m h path =
     (case parsePath path of
        None \<Rightarrow> []
      | Some pp \<Rightarrow>
          (case firstSegment m (segmentName pp) of
             None \<Rightarrow> []
           | Some seg \<Rightarrow>
               (case componentIndex pp of
                  None \<Rightarrow> getField (segmentObjs h seg) (fieldIndex pp)
                | Some c \<Rightarrow>
                    (case subcomponentIndex pp of
                       None \<Rightarrow> getComponent (segmentObjs h seg) (fieldIndex pp) c
                     | Some sc \<Rightarrow> getSubcomponent (segmentObjs h seg) (fieldIndex pp) c sc))))"

definition toString :: "HL7Message \<Rightarrow> heap \<Rightarrow> string" where
  "toString m h = join CRLF (map (\<lambda>r. segmentToString (segmentObjs h r)) (segments m))"

subsection \<open>Writing\<close>

text \<open>
  \<open>set\<close> returns normally or throws; what it wrote before throwing stays written, so the
  model returns the outcome together with the state. The source holds two variants of
  \<open>set\<close>: \<open>set1\<close> leaves a segment it creates out of the ordered list, \<open>set2\<close> appends it.
\<close>

definition findOrCreate1 ::
  "string \<Rightarrow> HL7Message \<times> heap \<Rightarrow> ref option \<times> HL7Message \<times> heap" where
  "findOrCreate1 nm \<sigma> =
     (case \<sigma> of (m, h) \<Rightarrow>
        (case parsedSegments m nm of
           Some (Array rs) \<Rightarrow> (arrayGet rs 0, m, h)
         | Some (Single r) \<Rightarrow> (Some r, m, h)
         | None \<Rightarrow>
             (let (r, h') = newSegment (nm @ ''|'') h
              in (Some r, m\<lparr>parsedSegments := (parsedSegments m)(nm \<mapsto> Single r)\<rparr>, h'))))"

definition findOrCreate2 ::
  "string \<Rightarrow> HL7Message \<times> heap \<Rightarrow> ref option \<times> HL7Message \<times> heap" where
  "findOrCreate2 nm \<sigma> =
     (case \<sigma> of (m, h) \<Rightarrow>
        (case parsedSegments m nm of
           Some (Array rs) \<Rightarrow> (arrayGet rs 0, m, h)
         | Some (Single r) \<Rightarrow> (Some r, m, h)
         | None \<Rightarrow>
             (let (r, h') = newSegment (nm @ ''|'') h
              in (Some r,
                  m\<lparr>parsedSegments := (parsedSegments m)(nm \<mapsto> Single r),
                    segments := segments m @ [r]\<rparr>, h'))))"

definition ensureField :: "ref \<Rightarrow> nat \<Rightarrow> heap \<Rightarrow> heap" where
  \<comment> \<open>\<open>if (!segment[fieldIndex]) segment[fieldIndex] = ''\<close>\<close>
  "ensureField seg f h =
     (let (fld, h1) = segmentIndexGet seg f h
      in case fld of None \<Rightarrow> segmentIndexSet seg f [] h1 | Some _ \<Rightarrow> h1)"

definition ensureComponent :: "ref \<Rightarrow> nat \<Rightarrow> nat \<Rightarrow> heap \<Rightarrow> (error + unit) \<times> heap" where
  \<comment> \<open>\<open>if (!segment[fieldIndex][componentIndex]) segment[fieldIndex][componentIndex] = ''\<close>\<close>
  "ensureComponent seg f c h =
     (let (fld, h1) = segmentIndexGet seg f h
      in case fld of
           None \<Rightarrow> (Inl TypeError, h1)
         | Some fr \<Rightarrow>
             (let (cmp, h2) = fieldIndexGet fr c h1
              in case cmp of
                   Some _ \<Rightarrow> (Inr (), h2)
                 | None \<Rightarrow>
                     (let (fld', h3) = segmentIndexGet seg f h2
                      in case fld' of
                           None \<Rightarrow> (Inl TypeError, h3)
                         | Some fr' \<Rightarrow> (Inr (), fieldIndexSet fr' c [] h3))))"

definition assignComponent ::
  "ref \<Rightarrow> nat \<Rightarrow> nat \<Rightarrow> string \<Rightarrow> heap \<Rightarrow> (error + unit) \<times> heap" where
  \<comment> \<open>\<open>segment[fieldIndex][componentIndex] = value\<close>\<close>
  "assignComponent seg f c v h =
     (let (fld, h1) = segmentIndexGet seg f h
      in case fld of
           None \<Rightarrow> (Inl TypeError, h1)
         | Some fr \<Rightarrow> (Inr (), fieldIndexSet fr c v h1))"

definition assignSubcomponent ::
  "ref \<Rightarrow> nat \<Rightarrow> nat \<Rightarrow> nat \<Rightarrow> string \<Rightarrow> heap \<Rightarrow> (error + unit) \<times> heap" where
  \<comment> \<open>\<open>segment[fieldIndex][componentIndex][subcomponentIndex] = value\<close>\<close>
  "assignSubcomponent seg f c sc v h =
     (let (fld, h1) = segmentIndexGet seg f h
      in case fld of
           None \<Rightarrow> (Inl TypeError, h1)
         | Some fr \<Rightarrow>
             (let (cmp, h2) = fieldIndexGet fr c h1
              in case cmp of
                   None \<Rightarrow> (Inl TypeError, h2)
                 | Some cr \<Rightarrow> (Inr (), componentIndexSet cr sc v h2)))"

definition writeSubcomponent ::
  "ref \<Rightarrow> nat \<Rightarrow> nat \<Rightarrow> nat \<Rightarrow> string \<Rightarrow> heap \<Rightarrow> (error + unit) \<times> heap" where
  \<comment> \<open>the last three statements of \<open>set\<close>, the same in both variants\<close>
  "writeSubcomponent seg f c sc v h =
     (case ensureComponent seg f c (ensureField seg f h) of
        (Inl e, h') \<Rightarrow> (Inl e, h')
      | (Inr _, h') \<Rightarrow> assignSubcomponent seg f c sc v h')"

definition write1 :: "ref \<Rightarrow> PathParts \<Rightarrow> string \<Rightarrow> heap \<Rightarrow> (error + unit) \<times> heap" where
  "write1 seg pp v h =
     (case componentIndex pp of
        None \<Rightarrow> (Inr (), segmentIndexSet seg (fieldIndex pp) v h)
      | Some c \<Rightarrow>
          if c = 0 then (Inr (), segmentIndexSet seg (fieldIndex pp) v h)
          else (case subcomponentIndex pp of
                  None \<Rightarrow> assignComponent seg (fieldIndex pp) c v (ensureField seg (fieldIndex pp) h)
                | Some sc \<Rightarrow>
                    if sc = 0
                    then assignComponent seg (fieldIndex pp) c v (ensureField seg (fieldIndex pp) h)
                    else writeSubcomponent seg (fieldIndex pp) c sc v h))"

definition write2 :: "ref \<Rightarrow> PathParts \<Rightarrow> string \<Rightarrow> heap \<Rightarrow> (error + unit) \<times> heap" where
  "write2 seg pp v h =
     (case componentIndex pp of
        None \<Rightarrow> (Inr (), segmentIndexSet seg (fieldIndex pp) v h)
      | Some c \<Rightarrow>
          if c = 0 then (Inr (), segmentIndexSet seg (fieldIndex pp) v h)
          else (let withComponent =
                      (case ensureComponent seg (fieldIndex pp) c
                              (ensureField seg (fieldIndex pp) h) of
                         (Inl e, h') \<Rightarrow> (Inl e, h')
                       | (Inr _, h') \<Rightarrow> assignComponent seg (fieldIndex pp) c v h')
                in case subcomponentIndex pp of
                     None \<Rightarrow> withComponent
                   | Some sc \<Rightarrow>
                       if sc = 0 then withComponent
                       else writeSubcomponent seg (fieldIndex pp) c sc v h))"

definition set1 ::
  "string \<Rightarrow> string \<Rightarrow> HL7Message \<times> heap \<Rightarrow> (error + unit) \<times> HL7Message \<times> heap" where
  "set1 path v \<sigma> =
     (case parsePath path of
        None \<Rightarrow> (Inr (), \<sigma>)
      | Some pp \<Rightarrow>
          (case findOrCreate1 (segmentName pp) \<sigma> of
             (None, m, h) \<Rightarrow> (Inl TypeError, m, h)
           | (Some seg, m, h) \<Rightarrow> (case write1 seg pp v h of (res, h') \<Rightarrow> (res, m, h'))))"

definition set2 ::
  "string \<Rightarrow> string \<Rightarrow> HL7Message \<times> heap \<Rightarrow> (error + unit) \<times> HL7Message \<times> heap" where
  "set2 path v \<sigma> =
     (case parsePath path of
        None \<Rightarrow> (Inr (), \<sigma>)
      | Some pp \<Rightarrow>
          (case findOrCreate2 (segmentName pp) \<sigma> of
             (None, m, h) \<Rightarrow> (Inl TypeError, m, h)
           | (Some seg, m, h) \<Rightarrow> (case write2 seg pp v h of (res, h') \<Rightarrow> (res, m, h'))))"


section \<open>The validator\<close>

text \<open>
  \<open>CustomValidator.ts\<close>. \<open>Date.parse\<close> and \<open>Number\<close> belong to the host; the validator
  takes the two tests \<open>isNaN(Date.parse(value))\<close> and \<open>isNaN(Number(value))\<close> as parameters.
\<close>

datatype dataType = ST | NM | DT | TS

record ValidationRule =
  path :: string
  required :: "bool option"
  dataType :: "dataType option"
  maxLength :: "nat option"
  allowedValues :: "string list option"
  regex :: "string option"

record ValidationError =
  errorPath :: string
  message :: string

record ValidationResult =
  isValid :: bool
  errors :: "ValidationError list"

function showNat :: "nat \<Rightarrow> string" where
  \<comment> \<open>a length as a template literal prints it\<close>
  "showNat n = (if n < 10 then [char_of (48 + n)]
                else showNat (n div 10) @ [char_of (48 + n mod 10)])"
  by pat_completeness auto
termination
  by (relation "measure id") auto

declare showNat.simps [simp del]

definition quoted :: "string \<Rightarrow> string" where
  "quoted s = [CHR 0x22] @ s @ [CHR 0x22]"

definition checkRule ::
  "(string \<Rightarrow> bool) \<Rightarrow> (string \<Rightarrow> bool) \<Rightarrow> HL7Message \<Rightarrow> heap \<Rightarrow>
   ValidationError list \<Rightarrow> ValidationRule \<Rightarrow> ValidationError list" where
  \<comment> \<open>one turn of the loop of \<open>validate\<close>: the errors so far, and the errors after the rule\<close>
  "checkRule dateIsNaN numberIsNaN m h errs rule =
     (let val = get m h (path rule)
      in if required rule = Some True \<and> (val = [] \<or> trim val = [])
         then errs @ [\<lparr>errorPath = path rule, message = ''The required field is missing.''\<rparr>]
         else if val = [] then errs
         else
           (let errs1 =
                  (case maxLength rule of
                     None \<Rightarrow> errs
                   | Some n \<Rightarrow>
                       if n \<noteq> 0 \<and> n < length val
                       then errs @ [\<lparr>errorPath = path rule,
                                      message = ''The value exceeds the maximum length of '' @
                                                showNat n @ ''.''\<rparr>]
                       else errs);
                errs2 =
                  (case allowedValues rule of
                     None \<Rightarrow> errs1
                   | Some allowed \<Rightarrow>
                       if val \<notin> set allowed
                       then errs1 @ [\<lparr>errorPath = path rule,
                                       message = ''The value '' @ quoted val @
                                                 '' is not in the list of allowed values.''\<rparr>]
                       else errs1);
                errs3 =
                  (if dataType rule = Some DT \<and> dateIsNaN val
                   then errs2 @ [\<lparr>errorPath = path rule,
                                   message = ''The value '' @ quoted val @
                                             '' is not a valid date (YYYYMMDD).''\<rparr>]
                   else errs2)
            in if dataType rule = Some NM \<and> numberIsNaN val
               then errs3 @ [\<lparr>errorPath = path rule,
                               message = ''The value '' @ quoted val @
                                         '' is not a valid number.''\<rparr>]
               else errs3))"

definition validate ::
  "(string \<Rightarrow> bool) \<Rightarrow> (string \<Rightarrow> bool) \<Rightarrow> ValidationRule list \<Rightarrow> HL7Message \<Rightarrow> heap \<Rightarrow>
   ValidationResult" where
  "validate dateIsNaN numberIsNaN rules m h =
     (let errs = foldl (checkRule dateIsNaN numberIsNaN m h) [] rules
      in \<lparr>isValid = (length errs = 0), errors = errs\<rparr>)"


section \<open>Scenarios and the notions the properties are stated with\<close>

definition mshLine :: string where
  "mshLine = ''MSH|^~'' @ [CHR 0x5C] @ ''&|A|B|C|D|20240101||ADT^A01|1|P|2.4''"

definition pidLine :: string where
  "pidLine = ''PID|1||X||DOE^JOHN''"

definition scenarioCR :: "HL7Message \<times> heap" where
  "scenarioCR = messageOf (newHL7Message (mshLine @ [CR] @ pidLine))"

definition scenarioLF :: "HL7Message \<times> heap" where
  "scenarioLF = messageOf (newHL7Message (mshLine @ [LF] @ pidLine))"

definition scenarioCRLF :: "HL7Message \<times> heap" where
  "scenarioCRLF = messageOf (newHL7Message (mshLine @ CRLF @ pidLine))"

definition pidMessage :: "HL7Message \<times> heap" where
  "pidMessage = messageOf (newHL7Message ''PID|1|2||DOE^JOHN^M'')"

definition shortMessage :: "HL7Message \<times> heap" where
  "shortMessage = messageOf (newHL7Message ''PID|1'')"

definition mshOnly :: "HL7Message \<times> heap" where
  "mshOnly = messageOf (newHL7Message ''MSH|a'')"

definition emptyFieldSegment :: "ref \<times> heap" where
  \<comment> \<open>the segment of the line \<open>PID|1|\<close>, alone in the store\<close>
  "emptyFieldSegment = newSegment ''PID|1|'' emptyHeap"

definition nameSegment :: "ref \<times> heap" where
  "nameSegment = newSegment ''PID|1|2||DOE^JOHN^M'' emptyHeap"

definition heldView :: "ref option \<times> heap" where
  \<comment> \<open>\<open>held = segment[4]\<close>\<close>
  "heldView = segmentIndexGet (fst nameSegment) 4 (snd nameSegment)"

definition afterViewWrite :: heap where
  \<comment> \<open>\<open>held[1] = 'SMITH'\<close>; the view is the object 1 of the store\<close>
  "afterViewWrite = fieldIndexSet 1 1 ''SMITH'' (snd heldView)"

definition freshView :: "ref option \<times> heap" where
  \<comment> \<open>\<open>fresh = segment[4]\<close>, after the write\<close>
  "freshView = segmentIndexGet (fst nameSegment) 4 afterViewWrite"

fun assemble :: "string \<Rightarrow> (string \<times> string) list \<Rightarrow> string" where
  \<comment> \<open>a first line, and then separators each followed by a line\<close>
  "assemble l [] = l"
| "assemble l ((sep, l') # rest) = l @ sep @ assemble l' rest"

definition wellFormedLine :: "string \<Rightarrow> bool" where
  \<comment> \<open>a line that is not blank and holds no line break\<close>
  "wellFormedLine l \<longleftrightarrow> trim l \<noteq> [] \<and> CR \<notin> set l \<and> LF \<notin> set l"

definition ordinaryName :: "string \<Rightarrow> bool" where
  \<comment> \<open>a segment name that is no inherited property and no member of the message\<close>
  "ordinaryName nm \<longleftrightarrow> nm \<notin> set objectPrototypeKeys \<and> nm \<notin> set memberNames"

definition fieldOutOfRange :: "Segment \<Rightarrow> PathParts \<Rightarrow> bool" where
  \<comment> \<open>with fields counted from 1 (position 0 holds the name): the field index of the
      path is 0 or lies beyond the last field\<close>
  "fieldOutOfRange s pp \<longleftrightarrow> fieldIndex pp = 0 \<or> length (fieldStrings s) \<le> fieldIndex pp"

definition childOutOfRange :: "Segment \<Rightarrow> PathParts \<Rightarrow> bool" where
  \<comment> \<open>with components and subcomponents counted from 1: the component or the
      subcomponent index of the path is 0 or lies beyond the last one\<close>
  "childOutOfRange s pp \<longleftrightarrow>
     (case componentIndex pp of
        None \<Rightarrow> False
      | Some c \<Rightarrow>
          c = 0 \<or> length (split (CHR ''^'') (getField s (fieldIndex pp))) < c \<or>
          (case subcomponentIndex pp of
             None \<Rightarrow> False
           | Some sc \<Rightarrow>
               sc = 0 \<or>
               length (split (CHR ''&'') (getComponent s (fieldIndex pp) c)) < sc))"

definition indexOutOfRange :: "Segment \<Rightarrow> PathParts \<Rightarrow> bool" where
  \<comment> \<open>a field, component or subcomponent index of the path is out of range\<close>
  "indexOutOfRange s pp \<longleftrightarrow> fieldOutOfRange s pp \<or> childOutOfRange s pp"

definition requiredMissing :: "ValidationRule \<Rightarrow> ValidationError" where
  "requiredMissing rule =
     \<lparr>errorPath = path rule, message = ''The required field is missing.''\<rparr>"

definition demoRequiredRule :: ValidationRule where
  "demoRequiredRule = \<lparr>path = ''PID-99'', required = Some True, dataType = Some NM,
     maxLength = Some 5, allowedValues = Some [''VALUE1''], regex = None\<rparr>"

definition demoLengthRule :: ValidationRule where
  "demoLengthRule = \<lparr>path = ''PID-4.1'', required = None, dataType = None,
     maxLength = Some 2, allowedValues = None, regex = None\<rparr>"

definition neverNaN :: "string \<Rightarrow> bool" where
  "neverNaN v = False"

section \<open>Basic facts\<close>

lemma pushUntil_eq: "pushUntil n xs = xs @ replicate (n - length xs) []"
proof (induction n xs rule: pushUntil.induct)
  case (1 n xs)
  show ?case
  proof (cases "length xs < n")
    case True
    then have "n - length xs = Suc (n - Suc (length xs))" by simp
    with 1 True show ?thesis
      by (simp add: pushUntil.simps [of n xs] replicate_app_Cons_same)
  next
    case False
    then show ?thesis by (simp add: pushUntil.simps [of n xs])
  qed
qed

lemma split_not_Nil: "split d s \<noteq> []"
  by (induction s) (auto split: list.splits)

lemma join_split: "join [d] (split d s) = s"
proof (induction s)
  case Nil
  show ?case by simp
next
  case (Cons c cs)
  obtain x xs where sp: "split d cs = x # xs"
    using split_not_Nil [of d cs] by (cases "split d cs") auto
  show ?case
  proof (cases "c = d")
    case True
    with Cons sp show ?thesis by simp
  next
    case False
    with Cons sp show ?thesis by (cases xs) auto
  qed
qed

lemma split_no_sep: "d \<notin> set a \<Longrightarrow> split d a = [a]"
  by (induction a) auto

lemma split_append_sep: "d \<notin> set a \<Longrightarrow> split d (a @ d # b) = a # split d b"
  by (induction a) auto

lemma splitLines_no_LF: "LF \<notin> set s \<Longrightarrow> splitLines s = [s]"
proof (induction s)
  case Nil
  show ?case by simp
next
  case (Cons c cs)
  then have "take 1 cs \<noteq> [LF]" by (cases cs) auto
  with Cons show ?case by auto
qed

lemma splitLines_append_LF:
  "CR \<notin> set a \<Longrightarrow> LF \<notin> set a \<Longrightarrow> splitLines (a @ LF # b) = a # splitLines b"
  by (induction a) (auto simp: CR_def LF_def)

lemma splitLines_append_CRLF:
  "CR \<notin> set a \<Longrightarrow> LF \<notin> set a \<Longrightarrow> splitLines (a @ CR # LF # b) = a # splitLines b"
  by (induction a) (auto simp: CR_def LF_def)

section \<open>The constructor and toString\<close>

lemma segmentToString_mkSegment: "segmentToString (mkSegment line) = line"
  using join_split [of "CHR ''|''" line] by (simp add: segmentToString_def mkSegment_def Let_def)

lemma newSegments_preserves:
  "newSegments ls h = (rs, h') \<Longrightarrow>
   nextRef h \<le> nextRef h' \<and> (\<forall>r < nextRef h. segmentObjs h' r = segmentObjs h r)"
proof (induction ls arbitrary: h rs h')
  case Nil
  then show ?case by simp
next
  case (Cons line rest)
  obtain rs' h'' where rec: "newSegments rest (snd (newSegment line h)) = (rs', h'')"
    by (cases "newSegments rest (snd (newSegment line h))") auto
  with Cons.prems have "h' = h''"
    by (simp add: newSegment_def)
  with Cons.IH [OF rec] show ?case
    by (simp add: newSegment_def)
qed

lemma newSegments_objs:
  "newSegments ls h = (rs, h') \<Longrightarrow> map (segmentObjs h') rs = map mkSegment ls"
proof (induction ls arbitrary: h rs h')
  case Nil
  then show ?case by simp
next
  case (Cons line rest)
  obtain rs' h'' where rec: "newSegments rest (snd (newSegment line h)) = (rs', h'')"
    by (cases "newSegments rest (snd (newSegment line h))") auto
  with Cons.prems have eq: "h' = h''" "rs = nextRef h # rs'"
    by (simp_all add: newSegment_def)
  have "segmentObjs h'' (nextRef h) = mkSegment line"
    using newSegments_preserves [OF rec] by (simp add: newSegment_def)
  with Cons.IH [OF rec] eq show ?case by simp
qed

lemma groupByName_ordinary:
  "\<forall>r \<in> set rs. getName (segmentObjs h r) \<notin> set objectPrototypeKeys \<Longrightarrow>
   \<exists>parsed'. groupByName h rs parsed = Inr parsed'"
proof (induction rs arbitrary: parsed)
  case Nil
  then show ?case by simp
next
  case (Cons r rs)
  then show ?case by (simp add: Let_def split: option.splits)
qed

lemma groupByName_inherited:
  "getName (segmentObjs h r) \<in> set objectPrototypeKeys \<Longrightarrow>
   groupByName h (r # rs) Map.empty = Inl TypeError"
  by (simp add: Let_def)

lemma isMessage_messageOf: "isMessage c \<Longrightarrow> c = Message (messageOf c)"
  by (cases c) (simp_all add: isMessage_def messageOf_def)

lemma newHL7Message_ordinary:
  assumes "\<forall>line \<in> set (filter (\<lambda>line. trim line \<noteq> []) (splitLines raw)).
             ordinaryName (getName (mkSegment line))"
  shows "\<exists>m h. newHL7Message raw = Message (m, h) \<and>
           toString m h = join CRLF (filter (\<lambda>line. trim line \<noteq> []) (splitLines raw))"
proof -
  define ls where "ls = filter (\<lambda>line. trim line \<noteq> []) (splitLines raw)"
  obtain segs h where ns: "newSegments ls emptyHeap = (segs, h)"
    by (cases "newSegments ls emptyHeap") auto
  have objs: "map (segmentObjs h) segs = map mkSegment ls"
    using newSegments_objs [OF ns] .
  have names: "map (\<lambda>r. getName (segmentObjs h r)) segs = map (\<lambda>l. getName (mkSegment l)) ls"
    using arg_cong [OF objs, of "map getName"] by (simp add: comp_def)
  have ord: "\<forall>nm \<in> set (map (\<lambda>r. getName (segmentObjs h r)) segs). ordinaryName nm"
    unfolding names using assms by (simp add: ls_def)
  then have "\<forall>r \<in> set segs. getName (segmentObjs h r) \<notin> set objectPrototypeKeys"
    by (simp add: ordinaryName_def)
  then obtain parsed where grp: "groupByName h segs Map.empty = Inr parsed"
    using groupByName_ordinary by blast
  from ord have "filter (\<lambda>key. key \<in> set memberNames)
      (remdups (map (\<lambda>r. getName (segmentObjs h r)) segs)) = []"
    by (auto simp: filter_empty_conv ordinaryName_def)
  then have asg: "assignSegmentProperties segs h = []"
    by (simp add: assignSegmentProperties_def)
  have "map (\<lambda>r. segmentToString (segmentObjs h r)) segs =
        map segmentToString (map (segmentObjs h) segs)"
    by simp
  also have "\<dots> = map segmentToString (map mkSegment ls)"
    using objs by simp
  also have "\<dots> = ls"
    by (simp add: segmentToString_mkSegment comp_def)
  finally have ts: "map (\<lambda>r. segmentToString (segmentObjs h r)) segs = ls" .
  show ?thesis
    using ns grp asg ts
    by (simp add: newHL7Message_def parseSegmentsToObject_def toString_def ls_def [symmetric])
qed

lemma newHL7Message_segments:
  assumes "newHL7Message raw = Message (m, h)"
    and "filter (\<lambda>line. trim line \<noteq> []) (splitLines raw) \<noteq> []"
  shows "segments m \<noteq> []"
proof -
  define ls where "ls = filter (\<lambda>line. trim line \<noteq> []) (splitLines raw)"
  obtain segs h' where ns: "newSegments ls emptyHeap = (segs, h')"
    by (cases "newSegments ls emptyHeap") auto
  from newSegments_objs [OF ns] have "length segs = length ls"
    using map_eq_imp_length_eq by blast
  with assms(2) have "segs \<noteq> []" by (auto simp: ls_def)
  moreover from assms(1) ns have "segments m = segs"
    by (auto simp: newHL7Message_def ls_def [symmetric] split: sum.splits list.splits)
  ultimately show ?thesis by simp
qed

lemma scenarios_constructed:
  "newHL7Message (mshLine @ [CR] @ pidLine) = Message scenarioCR"
  "newHL7Message (mshLine @ [LF] @ pidLine) = Message scenarioLF"
  "newHL7Message (mshLine @ CRLF @ pidLine) = Message scenarioCRLF"
  "newHL7Message ''PID|1|2||DOE^JOHN^M'' = Message pidMessage"
  "newHL7Message ''PID|1'' = Message shortMessage"
  "newHL7Message ''MSH|a'' = Message mshOnly"
proof -
  have "isMessage (newHL7Message (mshLine @ [CR] @ pidLine))" by code_simp
  then show "newHL7Message (mshLine @ [CR] @ pidLine) = Message scenarioCR"
    unfolding scenarioCR_def by (rule isMessage_messageOf)
  have "isMessage (newHL7Message (mshLine @ [LF] @ pidLine))" by code_simp
  then show "newHL7Message (mshLine @ [LF] @ pidLine) = Message scenarioLF"
    unfolding scenarioLF_def by (rule isMessage_messageOf)
  have "isMessage (newHL7Message (mshLine @ CRLF @ pidLine))" by code_simp
  then show "newHL7Message (mshLine @ CRLF @ pidLine) = Message scenarioCRLF"
    unfolding scenarioCRLF_def by (rule isMessage_messageOf)
  have "isMessage (newHL7Message ''PID|1|2||DOE^JOHN^M'')" by code_simp
  then show "newHL7Message ''PID|1|2||DOE^JOHN^M'' = Message pidMessage"
    unfolding pidMessage_def by (rule isMessage_messageOf)
  have "isMessage (newHL7Message ''PID|1'')" by code_simp
  then show "newHL7Message ''PID|1'' = Message shortMessage"
    unfolding shortMessage_def by (rule isMessage_messageOf)
  have "isMessage (newHL7Message ''MSH|a'')" by code_simp
  then show "newHL7Message ''MSH|a'' = Message mshOnly"
    unfolding mshOnly_def by (rule isMessage_messageOf)
qed

lemma constructor_failures:
  "thrown (newHL7Message ''toString|x'') = Some TypeError"
  "thrown (newHL7Message ''constructor|x'') = Some TypeError"
  "thrown (newHL7Message ''__proto__|x'') = Some TypeError"
  "overwrittenMembers (newHL7Message ''segments|x'') = [''segments'']"
  "overwrittenMembers (newHL7Message (''MSH|a'' @ [LF] @ ''get|x'')) = [''get'']"
  by code_simp+

lemma hasSegment_inherited:
  "hasSegment (fst mshOnly) ''toString''"
  "hasSegment (fst mshOnly) ''MSH''"
  "\<not> hasSegment (fst mshOnly) ''PID''"
  by code_simp+

lemma splitLines_assemble:
  "wellFormedLine l \<Longrightarrow>
   \<forall>(sep, l') \<in> set rest. (sep = [LF] \<or> sep = CRLF) \<and> wellFormedLine l' \<Longrightarrow>
   splitLines (assemble l rest) = l # map snd rest"
proof (induction rest arbitrary: l)
  case Nil
  then show ?case by (simp add: splitLines_no_LF wellFormedLine_def)
next
  case (Cons p rest)
  obtain sep l' where p: "p = (sep, l')" by (cases p)
  from Cons.prems p have sep: "sep = [LF] \<or> sep = CRLF" and wf': "wellFormedLine l'"
    and rest: "\<forall>(sep, l') \<in> set rest. (sep = [LF] \<or> sep = CRLF) \<and> wellFormedLine l'"
    by auto
  have tail: "splitLines (assemble l' rest) = l' # map snd rest"
    by (rule Cons.IH [OF wf' rest])
  from Cons.prems(1) have clean: "CR \<notin> set l" "LF \<notin> set l"
    by (simp_all add: wellFormedLine_def)
  from sep show ?case
  proof
    assume "sep = [LF]"
    with p tail clean show ?thesis by (simp add: splitLines_append_LF)
  next
    assume "sep = CRLF"
    with p tail clean show ?thesis by (simp add: splitLines_append_CRLF CRLF_def)
  qed
qed

section \<open>The path grammar\<close>

text \<open>
  \<open>parsePath\<close> accepts exactly the paths of the grammar: \<open>pathGrammar_iff\<close>.
\<close>

lemma isUpper_not_dash: "isUpper x \<Longrightarrow> x \<noteq> CHR ''-''"
  by (auto simp: isUpper_def)

lemma isDigit_not_dash: "isDigit x \<Longrightarrow> x \<noteq> CHR ''-''"
  by (auto simp: isDigit_def)

lemma isDigit_not_dot: "isDigit x \<Longrightarrow> x \<noteq> CHR ''.''"
  by (auto simp: isDigit_def)

lemma isDigit_not_upper: "isDigit x \<Longrightarrow> \<not> isUpper x"
  by (auto simp: isDigit_def isUpper_def)

lemma isDigits_no_dot: "isDigits f \<Longrightarrow> CHR ''.'' \<notin> set f"
  by (auto simp: isDigits_def list_all_iff dest: isDigit_not_dot)

lemma isSegmentName_decomp:
  assumes "isSegmentName nm"
  shows "\<exists>letters digit. nm = letters @ digit \<and> (length letters = 2 \<or> length letters = 3) \<and>
           (\<forall>x \<in> set letters. isUpper x) \<and> (digit = [] \<or> (\<exists>d. digit = [d] \<and> isDigit d))"
proof -
  define letters where "letters = takeWhile isUpper nm"
  define digit where "digit = dropWhile isUpper nm"
  have nm: "nm = letters @ digit"
    by (simp add: letters_def digit_def)
  have up: "\<forall>x \<in> set letters. isUpper x"
    by (auto simp: letters_def dest: set_takeWhileD)
  from assms have len: "length letters = 2 \<or> length letters = 3"
    and dg: "digit = [] \<or> (length digit = 1 \<and> list_all isDigit digit)"
    by (simp_all add: isSegmentName_def Let_def letters_def digit_def)
  from dg have "digit = [] \<or> (\<exists>d. digit = [d] \<and> isDigit d)"
    by (cases digit) auto
  with nm up len show ?thesis by blast
qed

lemma isSegmentName_compose:
  assumes "length letters = 2 \<or> length letters = 3" and "\<forall>x \<in> set letters. isUpper x"
    and "digit = [] \<or> (\<exists>d. digit = [d] \<and> isDigit d)"
  shows "isSegmentName (letters @ digit)"
proof -
  from assms(3) have tw: "takeWhile isUpper digit = []" and dw: "dropWhile isUpper digit = digit"
    by (auto dest: isDigit_not_upper)
  from assms(2) have "takeWhile isUpper (letters @ digit) = letters"
    and "dropWhile isUpper (letters @ digit) = digit"
    using tw dw by (simp_all add: takeWhile_append2 dropWhile_append2)
  with assms(1,3) show ?thesis
    by (auto simp: isSegmentName_def Let_def)
qed

lemma numbers_decomp:
  assumes "split (CHR ''.'') t = parts" and "list_all isDigits parts"
    and "length parts = 1 \<or> length parts = 2 \<or> length parts = 3"
  shows "\<exists>f c s. t = f @ c @ s \<and> isDigits f \<and>
           (c = [] \<or> (\<exists>n. c = CHR ''.'' # n \<and> isDigits n)) \<and>
           (s = [] \<or> (\<exists>n. s = CHR ''.'' # n \<and> isDigits n))"
proof -
  have t: "t = join ''.'' parts"
    using join_split [of "CHR ''.''" t] assms(1) by simp
  from assms(3) consider f where "parts = [f]" | f c where "parts = [f, c]"
    | f c s where "parts = [f, c, s]"
    by (auto simp: length_Suc_conv numeral_2_eq_2 numeral_3_eq_3)
  then show ?thesis
  proof cases
    case 1
    with t assms(2) have "t = f @ [] @ []" "isDigits f" by simp_all
    then show ?thesis by blast
  next
    case 2
    with t assms(2) have "t = f @ (CHR ''.'' # c) @ []" "isDigits f" "isDigits c" by simp_all
    then show ?thesis by blast
  next
    case 3
    with t assms(2) have "t = f @ (CHR ''.'' # c) @ (CHR ''.'' # s)"
      "isDigits f" "isDigits c" "isDigits s"
      by simp_all
    then show ?thesis by blast
  qed
qed

lemma parsePath_Some_parts:
  assumes "parsePath p = Some pp"
  shows "dropWhile (\<lambda>c. c \<noteq> CHR ''-'') p \<noteq> [] \<and>
         isSegmentName (takeWhile (\<lambda>c. c \<noteq> CHR ''-'') p) \<and>
         list_all isDigits (split (CHR ''.'') (tl (dropWhile (\<lambda>c. c \<noteq> CHR ''-'') p))) \<and>
         (length (split (CHR ''.'') (tl (dropWhile (\<lambda>c. c \<noteq> CHR ''-'') p))) = 1 \<or>
          length (split (CHR ''.'') (tl (dropWhile (\<lambda>c. c \<noteq> CHR ''-'') p))) = 2 \<or>
          length (split (CHR ''.'') (tl (dropWhile (\<lambda>c. c \<noteq> CHR ''-'') p))) = 3)"
  using assms
  by (simp add: parsePath_def Let_def split: if_splits list.splits)

lemma parsePath_Some_grammar:
  assumes "parsePath p = Some pp"
  shows "pathGrammar p"
proof -
  define nm where "nm = takeWhile (\<lambda>c. c \<noteq> CHR ''-'') p"
  define rest where "rest = dropWhile (\<lambda>c. c \<noteq> CHR ''-'') p"
  from parsePath_Some_parts [OF assms]
  have rest: "rest \<noteq> []" and name: "isSegmentName nm"
    and digits: "list_all isDigits (split (CHR ''.'') (tl rest))"
    and len: "length (split (CHR ''.'') (tl rest)) = 1 \<or> length (split (CHR ''.'') (tl rest)) = 2 \<or>
              length (split (CHR ''.'') (tl rest)) = 3"
    by (simp_all add: nm_def rest_def)
  from rest have "hd rest = CHR ''-''"
    using hd_dropWhile [of "\<lambda>c. c \<noteq> CHR ''-''" p] by (simp add: rest_def)
  with rest have r: "rest = CHR ''-'' # tl rest"
    by (cases rest) auto
  have p: "p = nm @ rest"
    by (simp add: nm_def rest_def)
  from isSegmentName_decomp [OF name] obtain letters digit where
    nm: "nm = letters @ digit" and l: "length letters = 2 \<or> length letters = 3"
    and u: "\<forall>x \<in> set letters. isUpper x" and d: "digit = [] \<or> (\<exists>d. digit = [d] \<and> isDigit d)"
    by blast
  from numbers_decomp [OF refl digits len] obtain f c s where
    t: "tl rest = f @ c @ s" and f: "isDigits f"
    and c: "c = [] \<or> (\<exists>n. c = CHR ''.'' # n \<and> isDigits n)"
    and s: "s = [] \<or> (\<exists>n. s = CHR ''.'' # n \<and> isDigits n)"
    by blast
  from p r nm t have "p = letters @ digit @ ''-'' @ f @ c @ s"
    by (metis append_Cons append_Nil append_assoc)
  with l u d f c s show ?thesis
    unfolding pathGrammar_def by blast
qed

lemma split_numbers:
  assumes "isDigits f"
    and "c = [] \<or> (\<exists>n. c = CHR ''.'' # n \<and> isDigits n)"
    and "s = [] \<or> (\<exists>n. s = CHR ''.'' # n \<and> isDigits n)"
  shows "(\<exists>x. split (CHR ''.'') (f @ c @ s) = [x] \<and> isDigits x) \<or>
         (\<exists>x y. split (CHR ''.'') (f @ c @ s) = [x, y] \<and> isDigits x \<and> isDigits y) \<or>
         (\<exists>x y z. split (CHR ''.'') (f @ c @ s) = [x, y, z] \<and> isDigits x \<and> isDigits y \<and> isDigits z)"
proof -
  note nd = isDigits_no_dot
  from assms(2,3) consider "c = []" "s = []"
    | n where "c = CHR ''.'' # n" "isDigits n" "s = []"
    | n where "c = []" "s = CHR ''.'' # n" "isDigits n"
    | n n' where "c = CHR ''.'' # n" "isDigits n" "s = CHR ''.'' # n'" "isDigits n'"
    by blast
  then show ?thesis
  proof cases
    case 1
    with assms(1) show ?thesis by (simp add: split_no_sep nd)
  next
    case 2
    have "split (CHR ''.'') (f @ CHR ''.'' # n) = [f, n]"
      using assms(1) 2(2) by (simp add: split_append_sep split_no_sep nd)
    with 2 assms(1) show ?thesis by simp
  next
    case 3
    have "split (CHR ''.'') (f @ CHR ''.'' # n) = [f, n]"
      using assms(1) 3(3) by (simp add: split_append_sep split_no_sep nd)
    with 3 assms(1) show ?thesis by simp
  next
    case 4
    have "split (CHR ''.'') (n @ CHR ''.'' # n') = [n, n']"
      using 4 by (simp add: split_append_sep split_no_sep nd)
    then have "split (CHR ''.'') (f @ CHR ''.'' # (n @ CHR ''.'' # n')) = [f, n, n']"
      using assms(1) by (simp add: split_append_sep nd)
    with 4 assms(1) show ?thesis by simp
  qed
qed

lemma takeWhile_to_dash:
  assumes "\<And>x. x \<in> set nm \<Longrightarrow> x \<noteq> CHR ''-''"
  shows "takeWhile (\<lambda>c. c \<noteq> CHR ''-'') (nm @ CHR ''-'' # t) = nm"
proof -
  have "takeWhile (\<lambda>c. c \<noteq> CHR ''-'') (nm @ CHR ''-'' # t) =
        nm @ takeWhile (\<lambda>c. c \<noteq> CHR ''-'') (CHR ''-'' # t)"
    by (rule takeWhile_append2) (rule assms)
  then show ?thesis by simp
qed

lemma dropWhile_to_dash:
  assumes "\<And>x. x \<in> set nm \<Longrightarrow> x \<noteq> CHR ''-''"
  shows "dropWhile (\<lambda>c. c \<noteq> CHR ''-'') (nm @ CHR ''-'' # t) = CHR ''-'' # t"
proof -
  have "dropWhile (\<lambda>c. c \<noteq> CHR ''-'') (nm @ CHR ''-'' # t) =
        dropWhile (\<lambda>c. c \<noteq> CHR ''-'') (CHR ''-'' # t)"
    by (rule dropWhile_append2) (rule assms)
  then show ?thesis by simp
qed

lemma parsePath_at_dash:
  assumes "\<And>x. x \<in> set nm \<Longrightarrow> x \<noteq> CHR ''-''" and "isSegmentName nm"
  shows "parsePath (nm @ CHR ''-'' # t) =
      (case split (CHR ''.'') t of
         [x] \<Rightarrow> if isDigits x
                then Some \<lparr>segmentName = nm, fieldIndex = parseInt x,
                           componentIndex = None, subcomponentIndex = None\<rparr>
                else None
       | [x, y] \<Rightarrow> if isDigits x \<and> isDigits y
                   then Some \<lparr>segmentName = nm, fieldIndex = parseInt x,
                              componentIndex = Some (parseInt y), subcomponentIndex = None\<rparr>
                   else None
       | [x, y, z] \<Rightarrow> if isDigits x \<and> isDigits y \<and> isDigits z
                   then Some \<lparr>segmentName = nm, fieldIndex = parseInt x,
                              componentIndex = Some (parseInt y),
                              subcomponentIndex = Some (parseInt z)\<rparr>
                   else None
       | _ \<Rightarrow> None)"
  using assms(2)
  by (simp add: parsePath_def Let_def takeWhile_to_dash [OF assms(1)]
      dropWhile_to_dash [OF assms(1)] cong: list.case_cong)

lemma grammar_parsePath:
  assumes "pathGrammar p"
  shows "\<exists>pp. parsePath p = Some pp"
proof -
  from assms [unfolded pathGrammar_def] obtain letters digit f c s where
    all: "p = letters @ digit @ ''-'' @ f @ c @ s \<and>
      (length letters = 2 \<or> length letters = 3) \<and> (\<forall>x \<in> set letters. isUpper x) \<and>
      (digit = [] \<or> (\<exists>d. digit = [d] \<and> isDigit d)) \<and>
      isDigits f \<and>
      (c = [] \<or> (\<exists>n. c = CHR ''.'' # n \<and> isDigits n)) \<and>
      (s = [] \<or> (\<exists>n. s = CHR ''.'' # n \<and> isDigits n))"
    by (elim exE)
  from all have p: "p = letters @ digit @ ''-'' @ f @ c @ s" by (elim conjE)
  from all have l: "length letters = 2 \<or> length letters = 3" by (elim conjE)
  from all have u: "\<forall>x \<in> set letters. isUpper x" by (elim conjE)
  from all have d: "digit = [] \<or> (\<exists>d. digit = [d] \<and> isDigit d)" by (elim conjE)
  from all have f: "isDigits f" by (elim conjE)
  from all have c: "c = [] \<or> (\<exists>n. c = CHR ''.'' # n \<and> isDigits n)" by (elim conjE)
  from all have s: "s = [] \<or> (\<exists>n. s = CHR ''.'' # n \<and> isDigits n)" by (elim conjE)
  have nodash: "x \<noteq> CHR ''-''" if "x \<in> set (letters @ digit)" for x
  proof -
    from that u d have "isUpper x \<or> isDigit x" by auto
    then show ?thesis
    proof
      assume "isUpper x"
      then show ?thesis by (rule isUpper_not_dash)
    next
      assume "isDigit x"
      then show ?thesis by (rule isDigit_not_dash)
    qed
  qed
  have name: "isSegmentName (letters @ digit)"
    by (rule isSegmentName_compose [OF l u d])
  have "parsePath p = parsePath ((letters @ digit) @ CHR ''-'' # (f @ c @ s))"
    by (simp add: p)
  also note parsePath_at_dash [OF nodash name]
  finally have start: "parsePath p =
      (case split (CHR ''.'') (f @ c @ s) of
         [x] \<Rightarrow> if isDigits x
                then Some \<lparr>segmentName = letters @ digit, fieldIndex = parseInt x,
                           componentIndex = None, subcomponentIndex = None\<rparr>
                else None
       | [x, y] \<Rightarrow> if isDigits x \<and> isDigits y
                   then Some \<lparr>segmentName = letters @ digit, fieldIndex = parseInt x,
                              componentIndex = Some (parseInt y), subcomponentIndex = None\<rparr>
                   else None
       | [x, y, z] \<Rightarrow> if isDigits x \<and> isDigits y \<and> isDigits z
                   then Some \<lparr>segmentName = letters @ digit, fieldIndex = parseInt x,
                              componentIndex = Some (parseInt y),
                              subcomponentIndex = Some (parseInt z)\<rparr>
                   else None
       | _ \<Rightarrow> None)" .
  from split_numbers [OF f c s] consider
      x where "split (CHR ''.'') (f @ c @ s) = [x]" "isDigits x"
    | x y where "split (CHR ''.'') (f @ c @ s) = [x, y]" "isDigits x" "isDigits y"
    | x y z where "split (CHR ''.'') (f @ c @ s) = [x, y, z]" "isDigits x" "isDigits y" "isDigits z"
    by blast
  then show ?thesis
  proof cases
    case 1
    then show ?thesis by (simp add: start)
  next
    case 2
    then show ?thesis by (simp add: start)
  next
    case 3
    then show ?thesis by (simp add: start)
  qed
qed

lemma pathGrammar_iff: "pathGrammar p \<longleftrightarrow> parsePath p \<noteq> None"
  using parsePath_Some_grammar grammar_parsePath by auto

section \<open>Reading through paths\<close>

lemma getField_out_of_range: "length (fieldStrings s) \<le> f \<Longrightarrow> getField s f = []"
  by (simp add: getField_def arrayGet_def orEmpty_def)

lemma getComponent_empty_field: "getField s f = [] \<Longrightarrow> getComponent s f c = []"
  by (simp add: getComponent_def)

lemma getComponent_out_of_range:
  "c = 0 \<or> length (split (CHR ''^'') (getField s f)) < c \<Longrightarrow> getComponent s f c = []"
  by (auto simp: getComponent_def arrayGet_def orEmpty_def Let_def)

lemma getSubcomponent_empty_component:
  "getComponent s f c = [] \<Longrightarrow> getSubcomponent s f c sc = []"
  by (simp add: getSubcomponent_def)

lemma getSubcomponent_out_of_range:
  "sc = 0 \<or> length (split (CHR ''&'') (getComponent s f c)) < sc \<Longrightarrow>
   getSubcomponent s f c sc = []"
  by (auto simp: getSubcomponent_def arrayGet_def orEmpty_def Let_def)

lemma get_malformed: "parsePath p = None \<Longrightarrow> get m h p = []"
  by (simp add: get_def)

lemma get_no_segment:
  "parsePath p = Some pp \<Longrightarrow> firstSegment m (segmentName pp) = None \<Longrightarrow> get m h p = []"
  by (simp add: get_def)

lemma get_out_of_range:
  assumes "parsePath p = Some pp" and "firstSegment m (segmentName pp) = Some seg"
    and "length (fieldStrings (segmentObjs h seg)) \<le> fieldIndex pp \<or>
         childOutOfRange (segmentObjs h seg) pp"
  shows "get m h p = []"
proof -
  let ?s = "segmentObjs h seg" and ?f = "fieldIndex pp"
  show ?thesis
  proof (cases "length (fieldStrings ?s) \<le> ?f")
    case True
    then have "getField ?s ?f = []" by (rule getField_out_of_range)
    with assms(1,2) show ?thesis
      by (simp add: get_def getComponent_empty_field getSubcomponent_empty_component
          split: option.splits)
  next
    case False
    with assms(3) obtain c where c: "componentIndex pp = Some c"
      and out: "c = 0 \<or> length (split (CHR ''^'') (getField ?s ?f)) < c \<or>
        (case subcomponentIndex pp of None \<Rightarrow> False
         | Some sc \<Rightarrow> sc = 0 \<or> length (split (CHR ''&'') (getComponent ?s ?f c)) < sc)"
      by (auto simp: childOutOfRange_def split: option.splits)
    show ?thesis
    proof (cases "c = 0 \<or> length (split (CHR ''^'') (getField ?s ?f)) < c")
      case True
      then have "getComponent ?s ?f c = []" by (rule getComponent_out_of_range)
      with assms(1,2) c show ?thesis
        by (simp add: get_def getSubcomponent_empty_component split: option.splits)
    next
      case False
      with out obtain sc where sc: "subcomponentIndex pp = Some sc"
        and "sc = 0 \<or> length (split (CHR ''&'') (getComponent ?s ?f c)) < sc"
        by (auto split: option.splits)
      then have "getSubcomponent ?s ?f c sc = []"
        by (simp add: getSubcomponent_out_of_range)
      with assms(1,2) c sc show ?thesis by (simp add: get_def)
    qed
  qed
qed

lemma get_field_zero:
  assumes "parsePath p = Some pp" and "firstSegment m (segmentName pp) = Some seg"
    and "fieldIndex pp = 0" and "componentIndex pp = None"
  shows "get m h p = (case fieldStrings (segmentObjs h seg) of [] \<Rightarrow> [] | n # _ \<Rightarrow> n)"
  using assms
  by (simp add: get_def getField_def arrayGet_def orEmpty_def split: list.splits)

lemma get_component_zero:
  assumes "parsePath p = Some pp" and "componentIndex pp = Some 0"
  shows "get m h p = []"
proof -
  have "getComponent s f 0 = []" for s f
    by (simp add: getComponent_out_of_range)
  then show ?thesis
    using assms
    by (simp add: get_def getSubcomponent_empty_component split: option.splits)
qed

text \<open>
  C8, as the code has it. For a path outside the grammar \<open>get\<close> returns the empty string
  and \<open>set\<close> (either variant) returns normally and leaves the message and the store as
  they were. For a path of the grammar, \<open>get\<close> returns the empty string when no segment
  has the name, when the field index lies beyond the last field, and when the component
  or the subcomponent index is 0 or lies beyond the last one. Field index 0 is out of
  range in the counting from 1, but the code reads position 0 of the segment there, which
  holds the name: for a path of a field only, \<open>get\<close> returns that entry.
  The paths of the grammar are those that \<open>parsePath\<close> accepts.
\<close>

theorem malformed_path_and_missing_target:
  "(\<not> pathGrammar p \<longrightarrow>
      get m h p = [] \<and> set1 p v (m, h) = (Inr (), m, h) \<and> set2 p v (m, h) = (Inr (), m, h)) \<and>
   (parsePath p = Some pp \<and> firstSegment m (segmentName pp) = None \<longrightarrow>
      pathGrammar p \<and> get m h p = []) \<and>
   (parsePath p = Some pp \<and> firstSegment m (segmentName pp) = Some seg \<and>
    indexOutOfRange (segmentObjs h seg) pp \<and>
    (0 < fieldIndex pp \<or> childOutOfRange (segmentObjs h seg) pp) \<longrightarrow>
      pathGrammar p \<and> get m h p = []) \<and>
   (parsePath p = Some pp \<and> firstSegment m (segmentName pp) = Some seg \<and>
    fieldIndex pp = 0 \<and> componentIndex pp = None \<longrightarrow>
      pathGrammar p \<and> indexOutOfRange (segmentObjs h seg) pp \<and>
      get m h p = (case fieldStrings (segmentObjs h seg) of [] \<Rightarrow> [] | n # _ \<Rightarrow> n)) \<and>
   (pathGrammar p \<longleftrightarrow> parsePath p \<noteq> None)"
proof (intro conjI impI)
  show "pathGrammar p \<longleftrightarrow> parsePath p \<noteq> None" by (rule pathGrammar_iff)
next
  assume "\<not> pathGrammar p"
  then have none: "parsePath p = None" by (simp add: pathGrammar_iff)
  then show "get m h p = []" by (rule get_malformed)
  from none show "set1 p v (m, h) = (Inr (), m, h)" by (simp add: set1_def)
  from none show "set2 p v (m, h) = (Inr (), m, h)" by (simp add: set2_def)
next
  assume a: "parsePath p = Some pp \<and> firstSegment m (segmentName pp) = None"
  then show "pathGrammar p" by (simp add: pathGrammar_iff)
  from a show "get m h p = []" by (simp add: get_no_segment)
next
  assume a: "parsePath p = Some pp \<and> firstSegment m (segmentName pp) = Some seg \<and>
    indexOutOfRange (segmentObjs h seg) pp \<and>
    (0 < fieldIndex pp \<or> childOutOfRange (segmentObjs h seg) pp)"
  then show "pathGrammar p" by (simp add: pathGrammar_iff)
  from a have "length (fieldStrings (segmentObjs h seg)) \<le> fieldIndex pp \<or>
      childOutOfRange (segmentObjs h seg) pp"
    by (auto simp: indexOutOfRange_def fieldOutOfRange_def)
  with a show "get m h p = []" by (blast intro: get_out_of_range)
next
  assume a: "parsePath p = Some pp \<and> firstSegment m (segmentName pp) = Some seg \<and>
    fieldIndex pp = 0 \<and> componentIndex pp = None"
  then show "pathGrammar p" by (simp add: pathGrammar_iff)
  from a show "indexOutOfRange (segmentObjs h seg) pp"
    by (simp add: indexOutOfRange_def fieldOutOfRange_def)
  from a show "get m h p = (case fieldStrings (segmentObjs h seg) of [] \<Rightarrow> [] | n # _ \<Rightarrow> n)"
    by (simp add: get_field_zero)
qed

theorem malformed_path_and_missing_target_witness:
  "\<not> pathGrammar ''PID-'' \<and>
   get (fst pidMessage) (snd pidMessage) ''PID-'' = [] \<and>
   set1 ''PID-'' ''X'' pidMessage = (Inr (), pidMessage) \<and>
   set2 ''PID-'' ''X'' pidMessage = (Inr (), pidMessage) \<and>
   pathGrammar ''EVN-1'' \<and> get (fst pidMessage) (snd pidMessage) ''EVN-1'' = [] \<and>
   pathGrammar ''PID-4.99'' \<and> get (fst pidMessage) (snd pidMessage) ''PID-4.99'' = [] \<and>
   pathGrammar ''PID-9'' \<and> get (fst pidMessage) (snd pidMessage) ''PID-9'' = [] \<and>
   pathGrammar ''PID-0.2'' \<and> get (fst pidMessage) (snd pidMessage) ''PID-0.2'' = [] \<and>
   pathGrammar ''PID-0'' \<and> get (fst pidMessage) (snd pidMessage) ''PID-0'' = ''PID''"
proof -
  have bad: "\<not> pathGrammar ''PID-''"
    unfolding pathGrammar_iff by code_simp
  have evn: "parsePath ''EVN-1'' = Some \<lparr>segmentName = ''EVN'', fieldIndex = 1,
      componentIndex = None, subcomponentIndex = None\<rparr>"
    by code_simp
  have noevn: "firstSegment (fst pidMessage)
      (segmentName \<lparr>segmentName = ''EVN'', fieldIndex = 1,
      componentIndex = None, subcomponentIndex = None\<rparr>) = None"
    by code_simp
  have pid: "parsePath ''PID-4.99'' = Some \<lparr>segmentName = ''PID'', fieldIndex = 4,
      componentIndex = Some 99, subcomponentIndex = None\<rparr>"
    by code_simp
  have haspid: "firstSegment (fst pidMessage)
      (segmentName \<lparr>segmentName = ''PID'', fieldIndex = 4,
      componentIndex = Some 99, subcomponentIndex = None\<rparr>) = Some 0"
    by code_simp
  have out: "indexOutOfRange (segmentObjs (snd pidMessage) 0)
      \<lparr>segmentName = ''PID'', fieldIndex = 4,
      componentIndex = Some 99, subcomponentIndex = None\<rparr>"
    by code_simp
  have pos: "0 < fieldIndex \<lparr>segmentName = ''PID'', fieldIndex = 4,
      componentIndex = Some 99, subcomponentIndex = None\<rparr>"
    by simp
  have nine: "parsePath ''PID-9'' = Some \<lparr>segmentName = ''PID'', fieldIndex = 9,
      componentIndex = None, subcomponentIndex = None\<rparr>"
    by code_simp
  have hasnine: "firstSegment (fst pidMessage)
      (segmentName \<lparr>segmentName = ''PID'', fieldIndex = 9,
      componentIndex = None, subcomponentIndex = None\<rparr>) = Some 0"
    by code_simp
  have outnine: "indexOutOfRange (segmentObjs (snd pidMessage) 0)
      \<lparr>segmentName = ''PID'', fieldIndex = 9,
      componentIndex = None, subcomponentIndex = None\<rparr>"
    by code_simp
  have posnine: "0 < fieldIndex \<lparr>segmentName = ''PID'', fieldIndex = 9,
      componentIndex = None, subcomponentIndex = None\<rparr>"
    by simp
  have zc: "parsePath ''PID-0.2'' = Some \<lparr>segmentName = ''PID'', fieldIndex = 0,
      componentIndex = Some 2, subcomponentIndex = None\<rparr>"
    by code_simp
  have haszc: "firstSegment (fst pidMessage)
      (segmentName \<lparr>segmentName = ''PID'', fieldIndex = 0,
      componentIndex = Some 2, subcomponentIndex = None\<rparr>) = Some 0"
    by code_simp
  have outzc: "indexOutOfRange (segmentObjs (snd pidMessage) 0)
      \<lparr>segmentName = ''PID'', fieldIndex = 0,
      componentIndex = Some 2, subcomponentIndex = None\<rparr>"
    by code_simp
  have childzc: "childOutOfRange (segmentObjs (snd pidMessage) 0)
      \<lparr>segmentName = ''PID'', fieldIndex = 0,
      componentIndex = Some 2, subcomponentIndex = None\<rparr>"
    by code_simp
  have zero: "parsePath ''PID-0'' = Some \<lparr>segmentName = ''PID'', fieldIndex = 0,
      componentIndex = None, subcomponentIndex = None\<rparr>"
    by code_simp
  have haszero: "firstSegment (fst pidMessage)
      (segmentName \<lparr>segmentName = ''PID'', fieldIndex = 0,
      componentIndex = None, subcomponentIndex = None\<rparr>) = Some 0"
    by code_simp
  have fz: "fieldIndex \<lparr>segmentName = ''PID'', fieldIndex = 0,
      componentIndex = None, subcomponentIndex = None\<rparr> = 0"
    "componentIndex \<lparr>segmentName = ''PID'', fieldIndex = 0,
      componentIndex = None, subcomponentIndex = None\<rparr> = None"
    by simp_all
  have nm: "(case fieldStrings (segmentObjs (snd pidMessage) 0) of [] \<Rightarrow> [] | n # _ \<Rightarrow> n) =
      ''PID''"
    by code_simp
  from bad malformed_path_and_missing_target
      [where p = "''PID-''" and m = "fst pidMessage" and h = "snd pidMessage" and v = "''X''"]
  have 1: "get (fst pidMessage) (snd pidMessage) ''PID-'' = [] \<and>
           set1 ''PID-'' ''X'' pidMessage = (Inr (), pidMessage) \<and>
           set2 ''PID-'' ''X'' pidMessage = (Inr (), pidMessage)"
    by simp
  from evn noevn malformed_path_and_missing_target
      [where p = "''EVN-1''" and m = "fst pidMessage" and h = "snd pidMessage"]
  have 2: "pathGrammar ''EVN-1'' \<and> get (fst pidMessage) (snd pidMessage) ''EVN-1'' = []"
    by blast
  from pid haspid out pos malformed_path_and_missing_target
      [where p = "''PID-4.99''" and m = "fst pidMessage" and h = "snd pidMessage"]
  have 3: "pathGrammar ''PID-4.99'' \<and> get (fst pidMessage) (snd pidMessage) ''PID-4.99'' = []"
    by blast
  from nine hasnine outnine posnine malformed_path_and_missing_target
      [where p = "''PID-9''" and m = "fst pidMessage" and h = "snd pidMessage"]
  have 4: "pathGrammar ''PID-9'' \<and> get (fst pidMessage) (snd pidMessage) ''PID-9'' = []"
    by blast
  from zc haszc outzc childzc malformed_path_and_missing_target
      [where p = "''PID-0.2''" and m = "fst pidMessage" and h = "snd pidMessage"]
  have 5: "pathGrammar ''PID-0.2'' \<and> get (fst pidMessage) (snd pidMessage) ''PID-0.2'' = []"
    by blast
  from zero haszero fz malformed_path_and_missing_target
      [where p = "''PID-0''" and m = "fst pidMessage" and h = "snd pidMessage"
        and pp = "\<lparr>segmentName = ''PID'', fieldIndex = 0,
          componentIndex = None, subcomponentIndex = None\<rparr>" and seg = 0]
  have "pathGrammar ''PID-0'' \<and>
        get (fst pidMessage) (snd pidMessage) ''PID-0'' =
          (case fieldStrings (segmentObjs (snd pidMessage) 0) of [] \<Rightarrow> [] | n # _ \<Rightarrow> n)"
    by blast
  with nm have 6: "pathGrammar ''PID-0'' \<and>
      get (fst pidMessage) (snd pidMessage) ''PID-0'' = ''PID''"
    by simp
  from bad 1 2 3 4 5 6 show ?thesis by blast
qed

text \<open>
  The claim C8 as stated fails at field index 0. \<open>PID-0\<close> is a path of the grammar and its
  field index is out of range in the counting from 1, yet \<open>get\<close> returns the segment
  name, not the empty string.
\<close>

theorem field_index_zero_counterexample:
  "pathGrammar ''PID-0'' \<and>
   parsePath ''PID-0'' = Some \<lparr>segmentName = ''PID'', fieldIndex = 0,
      componentIndex = None, subcomponentIndex = None\<rparr> \<and>
   firstSegment (fst pidMessage) ''PID'' = Some 0 \<and>
   indexOutOfRange (segmentObjs (snd pidMessage) 0)
     \<lparr>segmentName = ''PID'', fieldIndex = 0,
      componentIndex = None, subcomponentIndex = None\<rparr> \<and>
   get (fst pidMessage) (snd pidMessage) ''PID-0'' = ''PID'' \<and>
   get (fst pidMessage) (snd pidMessage) ''PID-0'' \<noteq> []"
proof -
  have zero: "parsePath ''PID-0'' = Some \<lparr>segmentName = ''PID'', fieldIndex = 0,
      componentIndex = None, subcomponentIndex = None\<rparr>"
    by code_simp
  then have gr: "pathGrammar ''PID-0''" by (simp add: pathGrammar_iff)
  have seg: "firstSegment (fst pidMessage) ''PID'' = Some 0"
    by code_simp
  have out: "indexOutOfRange (segmentObjs (snd pidMessage) 0)
     \<lparr>segmentName = ''PID'', fieldIndex = 0,
      componentIndex = None, subcomponentIndex = None\<rparr>"
    by code_simp
  have g: "get (fst pidMessage) (snd pidMessage) ''PID-0'' = ''PID''"
    by code_simp
  then have "get (fst pidMessage) (snd pidMessage) ''PID-0'' \<noteq> []" by simp
  with zero gr seg out g show ?thesis by blast
qed

section \<open>Writes through views and through paths\<close>

lemma fieldIndexSet_segmentObjs: "segmentObjs (fieldIndexSet fld i v h) = segmentObjs h"
  by (simp add: fieldIndexSet_def Let_def)

lemma componentIndexSet_segmentObjs: "segmentObjs (componentIndexSet cmp i v h) = segmentObjs h"
  by (simp add: componentIndexSet_def Let_def)

lemma set2_appends_created_segment:
  assumes "parsePath p = Some pp" and "parsedSegments m (segmentName pp) = None"
  shows "segments (fst (snd (set2 p v (m, h)))) = segments m @ [nextRef h] \<and>
         parsedSegments (fst (snd (set2 p v (m, h)))) (segmentName pp) =
           Some (Single (nextRef h))"
  using assms
  by (simp add: set2_def findOrCreate2_def newSegment_def split_beta)


lemma getField_segmentIndexSet:
  "getField (segmentObjs (segmentIndexSet seg f v h) seg) f = v"
proof -
  let ?fs = "pushUntil (Suc f) (fieldStrings (segmentObjs h seg))"
  have len: "f < length ?fs"
    by (simp add: pushUntil_eq)
  then have "arrayGet (?fs[f := v]) (int f) = Some v"
    by (simp add: arrayGet_def)
  then show ?thesis
    by (simp add: segmentIndexSet_def getField_def orEmpty_def Let_def)
qed

lemma write1_component_zero:
  "componentIndex pp = Some 0 \<Longrightarrow>
   write1 seg pp v h = (Inr (), segmentIndexSet seg (fieldIndex pp) v h)"
  by (simp add: write1_def)

lemma write2_component_zero:
  "componentIndex pp = Some 0 \<Longrightarrow>
   write2 seg pp v h = (Inr (), segmentIndexSet seg (fieldIndex pp) v h)"
  by (simp add: write2_def)

lemma write1_field_only:
  "write1 seg (pp\<lparr>componentIndex := None, subcomponentIndex := None\<rparr>) v h =
   (Inr (), segmentIndexSet seg (fieldIndex pp) v h)"
  by (simp add: write1_def)

lemma write2_field_only:
  "write2 seg (pp\<lparr>componentIndex := None, subcomponentIndex := None\<rparr>) v h =
   (Inr (), segmentIndexSet seg (fieldIndex pp) v h)"
  by (simp add: write2_def)

lemma segmentIndexSet_fieldObjs: "fieldObjs (segmentIndexSet seg f v h) = fieldObjs h"
  by (simp add: segmentIndexSet_def Let_def)

lemma findOrCreate1_existing:
  "firstSegment m nm = Some seg \<Longrightarrow> findOrCreate1 nm (m, h) = (Some seg, m, h)"
  by (auto simp: firstSegment_def findOrCreate1_def split: option.splits segmentData.splits)

lemma findOrCreate2_existing:
  "firstSegment m nm = Some seg \<Longrightarrow> findOrCreate2 nm (m, h) = (Some seg, m, h)"
  by (auto simp: firstSegment_def findOrCreate2_def split: option.splits segmentData.splits)

lemma getField_present: "getField s f \<noteq> [] \<Longrightarrow> f < length (fieldStrings s)"
  using getField_out_of_range [of s f] by (cases "f < length (fieldStrings s)") auto

lemma segmentIndexSet_present:
  "f < length (fieldStrings (segmentObjs h seg)) \<Longrightarrow>
   fieldStrings (segmentObjs (segmentIndexSet seg f v h) seg) =
     (fieldStrings (segmentObjs h seg))[f := v]"
  by (simp add: segmentIndexSet_def Let_def pushUntil_eq)

lemma segmentIndexGet_empty:
  "getField (segmentObjs h seg) f = [] \<Longrightarrow> segmentIndexGet seg f h = (None, h)"
  by (simp add: segmentIndexGet_def)

lemma ensureField_empty:
  "getField (segmentObjs h seg) f = [] \<Longrightarrow> ensureField seg f h = segmentIndexSet seg f [] h"
  by (simp add: ensureField_def segmentIndexGet_empty)

lemma assignComponent_after_ensureField:
  assumes "getField (segmentObjs h seg) f = []"
  shows "fst (assignComponent seg f c v (ensureField seg f h)) = Inl TypeError"
proof -
  have "getField (segmentObjs (segmentIndexSet seg f [] h) seg) f = []"
    by (rule getField_segmentIndexSet)
  then have "segmentIndexGet seg f (segmentIndexSet seg f [] h) = (None, segmentIndexSet seg f [] h)"
    by (rule segmentIndexGet_empty)
  then show ?thesis
    by (simp add: assignComponent_def ensureField_empty [OF assms])
qed

lemma ensureComponent_after_ensureField:
  assumes "getField (segmentObjs h seg) f = []"
  shows "fst (ensureComponent seg f c (ensureField seg f h)) = Inl TypeError"
proof -
  have "getField (segmentObjs (segmentIndexSet seg f [] h) seg) f = []"
    by (rule getField_segmentIndexSet)
  then have "segmentIndexGet seg f (segmentIndexSet seg f [] h) = (None, segmentIndexSet seg f [] h)"
    by (rule segmentIndexGet_empty)
  then show ?thesis
    by (simp add: ensureComponent_def ensureField_empty [OF assms])
qed

lemma write_component_on_empty_field:
  assumes "getField (segmentObjs h seg) (fieldIndex pp) = []"
    and "componentIndex pp = Some c" and "c \<noteq> 0"
  shows "fst (write1 seg pp v h) = Inl TypeError \<and> fst (write2 seg pp v h) = Inl TypeError"
proof -
  note a = assignComponent_after_ensureField [OF assms(1)]
  note e = ensureComponent_after_ensureField [OF assms(1), of c]
  have w: "fst (writeSubcomponent seg (fieldIndex pp) c sc v h) = Inl TypeError" for sc
    using e by (cases "ensureComponent seg (fieldIndex pp) c (ensureField seg (fieldIndex pp) h)")
      (simp add: writeSubcomponent_def)
  have "fst (write1 seg pp v h) = Inl TypeError"
    using assms(2,3) a w by (simp add: write1_def split: option.splits)
  moreover have "fst (write2 seg pp v h) = Inl TypeError"
    using assms(2,3) e w
    by (cases "ensureComponent seg (fieldIndex pp) c (ensureField seg (fieldIndex pp) h)")
      (simp add: write2_def Let_def split: option.splits)
  ultimately show ?thesis by simp
qed

lemma set_component_on_empty_field:
  assumes "parsePath p = Some pp" and "firstSegment m (segmentName pp) = Some seg"
    and "getField (segmentObjs h seg) (fieldIndex pp) = []"
    and "componentIndex pp = Some c" and "c \<noteq> 0"
  shows "fst (set1 p v (m, h)) = Inl TypeError \<and> fst (set2 p v (m, h)) = Inl TypeError"
  using write_component_on_empty_field [OF assms(3,4,5), of v] assms(1)
  by (simp add: set1_def set2_def findOrCreate1_existing [OF assms(2)]
      findOrCreate2_existing [OF assms(2)] split_beta)

text \<open>
  C1. \<open>set\<close> on a path whose segment does not exist creates the segment and appends it to
  the ordered list and to the name index, so that \<open>toString\<close> and \<open>getSegments\<close> show it.
  The first variant of \<open>set\<close> does not: on the message \<open>MSH|a\<close>, \<open>set('NK1-2', 'X')\<close>
  enters \<open>NK1\<close> in the index only; \<open>getSegments\<close> and \<open>toString\<close> are as before. The second
  variant appends it (\<open>set2_appends_created_segment\<close>, and the last line here).
\<close>

theorem set1_omits_created_segment:
  "fst (set1 ''NK1-2'' ''X'' mshOnly) = Inr () \<and>
   hasSegment (fst (snd (set1 ''NK1-2'' ''X'' mshOnly))) ''NK1'' \<and>
   getSegments (fst (snd (set1 ''NK1-2'' ''X'' mshOnly))) = getSegments (fst mshOnly) \<and>
   toString (fst (snd (set1 ''NK1-2'' ''X'' mshOnly)))
            (snd (snd (set1 ''NK1-2'' ''X'' mshOnly))) = ''MSH|a'' \<and>
   toString (fst (snd (set2 ''NK1-2'' ''X'' mshOnly)))
            (snd (snd (set2 ''NK1-2'' ''X'' mshOnly))) = ''MSH|a'' @ CRLF @ ''NK1||X''"
  by code_simp

text \<open>
  C2. A write through a field view reaches the owning segment, and a view held and a view
  fetched again show the same components. In the code a view is a new object built from a
  copy of the field's string: on the segment \<open>PID|1|2||DOE^JOHN^M\<close>, after
  \<open>held = segment[4]; held[1] = 'SMITH'\<close> the view reads \<open>SMITH^JOHN^M\<close>, the segment's
  field 4 still reads \<open>DOE^JOHN^M\<close>, and a view fetched again shows the old components.
  No write through a view changes any segment (\<open>fieldIndexSet_segmentObjs\<close>).
\<close>

theorem field_view_write_not_propagated:
  "fst heldView = Some 1 \<and> fst freshView = Some 2 \<and>
   fieldToString (fieldObjs afterViewWrite 1) = ''SMITH^JOHN^M'' \<and>
   getField (segmentObjs afterViewWrite (fst nameSegment)) 4 = ''DOE^JOHN^M'' \<and>
   getComponents (fieldObjs (snd freshView) 1) = [''SMITH'', ''JOHN'', ''M''] \<and>
   getComponents (fieldObjs (snd freshView) 2) = [''DOE'', ''JOHN'', ''M'']"
  by code_simp

text \<open>
  C3. Constructing a message and calling \<open>get\<close>, \<open>set\<close> and \<open>toString\<close> never throws, also
  when \<open>set\<close> names a component or subcomponent of a field that is absent or empty. In the
  code \<open>set\<close> then throws a TypeError, in both variants: on the message \<open>PID|1\<close>, field 3 is
  absent; \<open>segment[3] = ''\<close> leaves \<open>segment[3]\<close> reading \<open>null\<close>, and the next statement
  indexes \<open>null\<close>.
\<close>

theorem set_component_on_absent_field_raises:
  "get (fst shortMessage) (snd shortMessage) ''PID-3'' = [] \<and>
   fst (set1 ''PID-3.1'' ''X'' shortMessage) = Inl TypeError \<and>
   fst (set2 ''PID-3.1'' ''X'' shortMessage) = Inl TypeError \<and>
   fst (set1 ''PID-3.1.1'' ''X'' shortMessage) = Inl TypeError \<and>
   fst (set2 ''PID-3.1.1'' ''X'' shortMessage) = Inl TypeError"
  by code_simp

text \<open>
  C5. \<open>set(path, v)\<close> followed by \<open>get(path)\<close> returns \<open>v\<close> for every valid path. In the code
  a component path writes into a view that is dropped: on the message
  \<open>PID|1|2||DOE^JOHN^M\<close>, \<open>set('PID-4.1', 'SMITH')\<close> returns normally and \<open>get('PID-4.1')\<close>
  still returns \<open>DOE\<close>, in both variants.
\<close>

theorem set_component_then_get_returns_old:
  "fst (set1 ''PID-4.1'' ''SMITH'' pidMessage) = Inr () \<and>
   get (fst (snd (set1 ''PID-4.1'' ''SMITH'' pidMessage)))
       (snd (snd (set1 ''PID-4.1'' ''SMITH'' pidMessage))) ''PID-4.1'' = ''DOE'' \<and>
   fst (set2 ''PID-4.1'' ''SMITH'' pidMessage) = Inr () \<and>
   get (fst (snd (set2 ''PID-4.1'' ''SMITH'' pidMessage)))
       (snd (snd (set2 ''PID-4.1'' ''SMITH'' pidMessage))) ''PID-4.1'' = ''DOE''"
  by code_simp


text \<open>
  C10. The grammar accepts 0 as a component index and as a subcomponent index (\<open>PID-5.0\<close>
  parses, with component index 0, and \<open>PID-5.1.0\<close>, with subcomponent index 0). For every
  message, \<open>get\<close> of a path with component index 0 returns the empty
  string. \<open>set\<close> of such a path does exactly what \<open>set\<close> of the path without its component
  part does (\<open>q\<close> below): for a segment that exists and a field that is present and not
  empty it returns normally, creates no view, and replaces the whole field slot by the
  value, leaving every other field as it was.
\<close>

theorem component_index_zero:
  assumes "parsePath p = Some pp" and "componentIndex pp = Some 0"
  shows "get m h p = [] \<and>
         (parsePath q = Some (pp\<lparr>componentIndex := None, subcomponentIndex := None\<rparr>) \<longrightarrow>
            set1 p v (m, h) = set1 q v (m, h) \<and> set2 p v (m, h) = set2 q v (m, h)) \<and>
         (firstSegment m (segmentName pp) = Some seg \<and>
          getField (segmentObjs h seg) (fieldIndex pp) \<noteq> [] \<longrightarrow>
            set1 p v (m, h) = (Inr (), m, segmentIndexSet seg (fieldIndex pp) v h) \<and>
            set2 p v (m, h) = (Inr (), m, segmentIndexSet seg (fieldIndex pp) v h) \<and>
            fieldStrings (segmentObjs (segmentIndexSet seg (fieldIndex pp) v h) seg) =
              (fieldStrings (segmentObjs h seg))[fieldIndex pp := v] \<and>
            getField (segmentObjs (segmentIndexSet seg (fieldIndex pp) v h) seg) (fieldIndex pp) = v \<and>
            fieldObjs (segmentIndexSet seg (fieldIndex pp) v h) = fieldObjs h) \<and>
         parsePath ''PID-5.0'' = Some \<lparr>segmentName = ''PID'', fieldIndex = 5,
            componentIndex = Some 0, subcomponentIndex = None\<rparr> \<and>
         pathGrammar ''PID-5.0'' \<and>
         parsePath ''PID-5.1.0'' = Some \<lparr>segmentName = ''PID'', fieldIndex = 5,
            componentIndex = Some 1, subcomponentIndex = Some 0\<rparr> \<and>
         pathGrammar ''PID-5.1.0''"
proof (intro conjI impI)
  show "get m h p = []" by (rule get_component_zero [OF assms])
next
  assume q: "parsePath q = Some (pp\<lparr>componentIndex := None, subcomponentIndex := None\<rparr>)"
  with assms show "set1 p v (m, h) = set1 q v (m, h)"
    by (simp add: set1_def write1_component_zero write1_field_only
        split: prod.splits option.splits)
  from q assms show "set2 p v (m, h) = set2 q v (m, h)"
    by (simp add: set2_def write2_component_zero write2_field_only
        split: prod.splits option.splits)
next
  assume "firstSegment m (segmentName pp) = Some seg \<and>
          getField (segmentObjs h seg) (fieldIndex pp) \<noteq> []"
  then have seg: "firstSegment m (segmentName pp) = Some seg"
    and present: "fieldIndex pp < length (fieldStrings (segmentObjs h seg))"
    by (simp_all add: getField_present)
  from seg assms show "set1 p v (m, h) = (Inr (), m, segmentIndexSet seg (fieldIndex pp) v h)"
    by (simp add: set1_def write1_component_zero findOrCreate1_existing)
  from seg assms show "set2 p v (m, h) = (Inr (), m, segmentIndexSet seg (fieldIndex pp) v h)"
    by (simp add: set2_def write2_component_zero findOrCreate2_existing)
  from present show "fieldStrings (segmentObjs (segmentIndexSet seg (fieldIndex pp) v h) seg) =
      (fieldStrings (segmentObjs h seg))[fieldIndex pp := v]"
    by (rule segmentIndexSet_present)
  show "getField (segmentObjs (segmentIndexSet seg (fieldIndex pp) v h) seg) (fieldIndex pp) = v"
    by (rule getField_segmentIndexSet)
  show "fieldObjs (segmentIndexSet seg (fieldIndex pp) v h) = fieldObjs h"
    by (rule segmentIndexSet_fieldObjs)
next
  show zero: "parsePath ''PID-5.0'' = Some \<lparr>segmentName = ''PID'', fieldIndex = 5,
            componentIndex = Some 0, subcomponentIndex = None\<rparr>"
    by code_simp
  then show "pathGrammar ''PID-5.0''" by (simp add: pathGrammar_iff)
next
  show sub: "parsePath ''PID-5.1.0'' = Some \<lparr>segmentName = ''PID'', fieldIndex = 5,
            componentIndex = Some 1, subcomponentIndex = Some 0\<rparr>"
    by code_simp
  then show "pathGrammar ''PID-5.1.0''" by (simp add: pathGrammar_iff)
qed

theorem component_index_zero_witness:
  "get (fst pidMessage) (snd pidMessage) ''PID-4.0'' = [] \<and>
   set1 ''PID-4.0'' ''SMITH'' pidMessage = set1 ''PID-4'' ''SMITH'' pidMessage \<and>
   set2 ''PID-4.0'' ''SMITH'' pidMessage = set2 ''PID-4'' ''SMITH'' pidMessage \<and>
   set1 ''PID-4.0'' ''SMITH'' pidMessage =
     (Inr (), fst pidMessage, segmentIndexSet 0 4 ''SMITH'' (snd pidMessage)) \<and>
   getField (segmentObjs (segmentIndexSet 0 4 ''SMITH'' (snd pidMessage)) 0) 4 = ''SMITH'' \<and>
   toString (fst pidMessage) (segmentIndexSet 0 4 ''SMITH'' (snd pidMessage)) = ''PID|1|2||SMITH''"
proof -
  let ?pp = "\<lparr>segmentName = ''PID'', fieldIndex = 4, componentIndex = Some 0,
              subcomponentIndex = None\<rparr>"
  have pp: "parsePath ''PID-4.0'' = Some ?pp"
    by code_simp
  have zero: "componentIndex ?pp = Some 0"
    by simp
  have q: "parsePath ''PID-4'' = Some \<lparr>segmentName = ''PID'', fieldIndex = 4,
      componentIndex = None, subcomponentIndex = None\<rparr>"
    by code_simp
  have seg: "firstSegment (fst pidMessage) ''PID'' = Some 0"
    by code_simp
  have present: "getField (segmentObjs (snd pidMessage) 0) 4 \<noteq> []"
    by code_simp
  have ts: "toString (fst pidMessage) (segmentIndexSet 0 4 ''SMITH'' (snd pidMessage)) =
            ''PID|1|2||SMITH''"
    by code_simp
  note inst = component_index_zero [OF pp zero, where m = "fst pidMessage"
      and h = "snd pidMessage" and q = "''PID-4''" and v = "''SMITH''" and seg = 0, simplified]
  from inst have 1: "get (fst pidMessage) (snd pidMessage) ''PID-4.0'' = []"
    by (rule conjunct1)
  from inst q have 2: "set1 ''PID-4.0'' ''SMITH'' pidMessage = set1 ''PID-4'' ''SMITH'' pidMessage \<and>
      set2 ''PID-4.0'' ''SMITH'' pidMessage = set2 ''PID-4'' ''SMITH'' pidMessage"
    by blast
  from inst seg present have 3: "set1 ''PID-4.0'' ''SMITH'' pidMessage =
      (Inr (), fst pidMessage, segmentIndexSet 0 4 ''SMITH'' (snd pidMessage)) \<and>
      getField (segmentObjs (segmentIndexSet 0 4 ''SMITH'' (snd pidMessage)) 0) 4 = ''SMITH''"
    by blast
  from 1 2 3 ts show ?thesis by blast
qed

section \<open>Line breaks\<close>

text \<open>
  C4, as the code has it. The constructor splits the text at LF and at CRLF; a lone CR is
  not a boundary. For the two lines of the scenario separated by LF or by CRLF,
  \<open>get('PID-5.1')\<close> is \<open>DOE\<close>, \<open>get('PID-5.2')\<close> is \<open>JOHN\<close>, \<open>hasSegment('OBX')\<close> is false,
  and the message type \<open>ADT^A01\<close> is field 8 of MSH (field 9 is \<open>1\<close>): the name is position
  0 and the encoding characters are field 1. Separated by a lone CR, the two lines are one
  MSH segment: there is no PID segment and \<open>get('PID-5.1')\<close> is empty.
\<close>

theorem splits_at_LF_and_CRLF:
  "(CR \<notin> set a \<and> LF \<notin> set a \<and> CR \<notin> set b \<and> LF \<notin> set b \<longrightarrow>
      splitLines (a @ [LF] @ b) = [a, b] \<and> splitLines (a @ CRLF @ b) = [a, b] \<and>
      splitLines (a @ [CR] @ b) = [a @ [CR] @ b]) \<and>
   (get (fst scenarioLF) (snd scenarioLF) ''PID-5.1'' = ''DOE'' \<and>
    get (fst scenarioLF) (snd scenarioLF) ''PID-5.2'' = ''JOHN'' \<and>
    get (fst scenarioLF) (snd scenarioLF) ''MSH-8'' = ''ADT^A01'' \<and>
    get (fst scenarioLF) (snd scenarioLF) ''MSH-9'' = ''1'' \<and>
    \<not> hasSegment (fst scenarioLF) ''OBX'') \<and>
   (get (fst scenarioCRLF) (snd scenarioCRLF) ''PID-5.1'' = ''DOE'' \<and>
    get (fst scenarioCRLF) (snd scenarioCRLF) ''PID-5.2'' = ''JOHN'' \<and>
    get (fst scenarioCRLF) (snd scenarioCRLF) ''MSH-8'' = ''ADT^A01'' \<and>
    get (fst scenarioCRLF) (snd scenarioCRLF) ''MSH-9'' = ''1'' \<and>
    \<not> hasSegment (fst scenarioCRLF) ''OBX'') \<and>
   (length (getSegments (fst scenarioCR)) = 1 \<and>
    hasSegment (fst scenarioCR) ''MSH'' \<and> \<not> hasSegment (fst scenarioCR) ''PID'' \<and>
    get (fst scenarioCR) (snd scenarioCR) ''PID-5.1'' = [] \<and>
    get (fst scenarioCR) (snd scenarioCR) ''PID-5.2'' = [] \<and>
    get (fst scenarioCR) (snd scenarioCR) ''MSH-8'' = ''ADT^A01'' \<and>
    \<not> hasSegment (fst scenarioCR) ''OBX'')"
proof (intro conjI impI)
  assume clean: "CR \<notin> set a \<and> LF \<notin> set a \<and> CR \<notin> set b \<and> LF \<notin> set b"
  then show "splitLines (a @ [LF] @ b) = [a, b]"
    by (simp add: splitLines_append_LF splitLines_no_LF)
  from clean show "splitLines (a @ CRLF @ b) = [a, b]"
    by (simp add: CRLF_def splitLines_append_CRLF splitLines_no_LF)
  from clean have "LF \<notin> set (a @ [CR] @ b)" by (simp add: CR_def LF_def)
  then show "splitLines (a @ [CR] @ b) = [a @ [CR] @ b]"
    by (rule splitLines_no_LF)
qed code_simp+

theorem splits_at_LF_and_CRLF_witness:
  "splitLines (''A|1'' @ [LF] @ ''B|2'') = [''A|1'', ''B|2''] \<and>
   splitLines (''A|1'' @ CRLF @ ''B|2'') = [''A|1'', ''B|2''] \<and>
   splitLines (''A|1'' @ [CR] @ ''B|2'') = [''A|1'' @ [CR] @ ''B|2'']"
proof -
  have "CR \<notin> set ''A|1'' \<and> LF \<notin> set ''A|1'' \<and> CR \<notin> set ''B|2'' \<and> LF \<notin> set ''B|2''"
    by code_simp
  with splits_at_LF_and_CRLF [of "''A|1''" "''B|2''"] show ?thesis by blast
qed

text \<open>
  The claim C4 as stated fails on its own input, the two lines separated by a lone CR.
\<close>

theorem lone_CR_scenario_counterexample:
  "\<not> (get (fst scenarioCR) (snd scenarioCR) ''PID-5.1'' = ''DOE'' \<and>
      get (fst scenarioCR) (snd scenarioCR) ''PID-5.2'' = ''JOHN'' \<and>
      get (fst scenarioCR) (snd scenarioCR) ''MSH-9'' = ''ADT^A01'' \<and>
      \<not> hasSegment (fst scenarioCR) ''OBX'')"
  by code_simp

text \<open>
  C6, as the code has it. Take lines that are not blank and hold no line break, each
  with a segment name that is no member of the message object and no property inherited
  from \<open>Object.prototype\<close>. For a text made of such lines joined by LF or CRLF (each
  separator chosen freely), the constructor returns a message, and \<open>toString\<close> on it
  returns the lines in their order joined by CRLF. A lone CR is no separator: for a text
  that is not blank, holds no LF and starts with such a name, the constructor returns a
  message of one segment and \<open>toString\<close> returns the text unchanged, with every CR in it.
\<close>

theorem roundtrip_LF_CRLF:
  "(wellFormedLine l \<and> ordinaryName (getName (mkSegment l)) \<and>
    (\<forall>(sep, l') \<in> set rest.
        (sep = [LF] \<or> sep = CRLF) \<and> wellFormedLine l' \<and>
        ordinaryName (getName (mkSegment l'))) \<longrightarrow>
      (\<exists>m h. newHL7Message (assemble l rest) = Message (m, h) \<and>
             segments m \<noteq> [] \<and>
             toString m h = join CRLF (l # map snd rest))) \<and>
   (LF \<notin> set t \<and> trim t \<noteq> [] \<and> ordinaryName (getName (mkSegment t)) \<longrightarrow>
      (\<exists>m h. newHL7Message t = Message (m, h) \<and> toString m h = t))"
proof (intro conjI impI)
  assume a: "wellFormedLine l \<and> ordinaryName (getName (mkSegment l)) \<and>
    (\<forall>(sep, l') \<in> set rest.
        (sep = [LF] \<or> sep = CRLF) \<and> wellFormedLine l' \<and>
        ordinaryName (getName (mkSegment l')))"
  then have wf: "wellFormedLine l"
    and rest: "\<forall>(sep, l') \<in> set rest. (sep = [LF] \<or> sep = CRLF) \<and> wellFormedLine l'"
    by auto
  have sl: "splitLines (assemble l rest) = l # map snd rest"
    by (rule splitLines_assemble [OF wf rest])
  have keep: "filter (\<lambda>line. trim line \<noteq> []) (l # map snd rest) = l # map snd rest"
    using wf rest by (auto simp: wellFormedLine_def filter_id_conv)
  have "\<forall>line \<in> set (l # map snd rest). ordinaryName (getName (mkSegment line))"
    using a by auto
  then have "\<forall>line \<in> set (filter (\<lambda>line. trim line \<noteq> []) (splitLines (assemble l rest))).
      ordinaryName (getName (mkSegment line))"
    by (simp only: sl keep)
  from newHL7Message_ordinary [OF this] obtain m h
    where m: "newHL7Message (assemble l rest) = Message (m, h)"
      and ts: "toString m h = join CRLF (l # map snd rest)"
    by (auto simp only: sl keep)
  have "segments m \<noteq> []"
    using m by (rule newHL7Message_segments) (simp only: sl keep, simp)
  with m ts show "\<exists>m h. newHL7Message (assemble l rest) = Message (m, h) \<and>
      segments m \<noteq> [] \<and> toString m h = join CRLF (l # map snd rest)"
    by blast
next
  assume b: "LF \<notin> set t \<and> trim t \<noteq> [] \<and> ordinaryName (getName (mkSegment t))"
  then have sl: "splitLines t = [t]" by (simp add: splitLines_no_LF)
  from b have "\<forall>line \<in> set (filter (\<lambda>line. trim line \<noteq> []) (splitLines t)).
      ordinaryName (getName (mkSegment line))"
    by (simp add: sl)
  from newHL7Message_ordinary [OF this] b
  show "\<exists>m h. newHL7Message t = Message (m, h) \<and> toString m h = t"
    by (simp add: sl)
qed

theorem roundtrip_LF_CRLF_witness:
  "(\<exists>m h. newHL7Message (''A|1'' @ [LF] @ ''B|2^3'' @ CRLF @ ''C|'') = Message (m, h) \<and>
          segments m \<noteq> [] \<and>
          toString m h = ''A|1'' @ CRLF @ ''B|2^3'' @ CRLF @ ''C|'') \<and>
   (\<exists>m h. newHL7Message (''A|1'' @ [CR] @ ''B|2'') = Message (m, h) \<and>
          toString m h = ''A|1'' @ [CR] @ ''B|2'')"
proof -
  have wf: "wellFormedLine ''A|1''" "wellFormedLine ''B|2^3''" "wellFormedLine ''C|''"
    by code_simp+
  have ord: "ordinaryName (getName (mkSegment ''A|1''))"
    "ordinaryName (getName (mkSegment ''B|2^3''))"
    "ordinaryName (getName (mkSegment ''C|''))"
    by code_simp+
  from wf ord have rest: "\<forall>(sep, l') \<in> set [([LF], ''B|2^3''), (CRLF, ''C|'')].
      (sep = [LF] \<or> sep = CRLF) \<and> wellFormedLine l' \<and> ordinaryName (getName (mkSegment l'))"
    by simp
  have cr: "LF \<notin> set (''A|1'' @ [CR] @ ''B|2'')" "trim (''A|1'' @ [CR] @ ''B|2'') \<noteq> []"
    "ordinaryName (getName (mkSegment (''A|1'' @ [CR] @ ''B|2'')))"
    by code_simp+
  note inst = roundtrip_LF_CRLF [where l = "''A|1''"
      and rest = "[([LF], ''B|2^3''), (CRLF, ''C|'')]" and t = "''A|1'' @ [CR] @ ''B|2''"]
  from inst wf(1) ord(1) rest
  have 1: "\<exists>m h. newHL7Message (assemble ''A|1'' [([LF], ''B|2^3''), (CRLF, ''C|'')]) =
      Message (m, h) \<and> segments m \<noteq> [] \<and>
      toString m h = join CRLF (''A|1'' # map snd [([LF], ''B|2^3''), (CRLF, ''C|'')])"
    by blast
  from inst cr
  have 2: "\<exists>m h. newHL7Message (''A|1'' @ [CR] @ ''B|2'') = Message (m, h) \<and>
      toString m h = ''A|1'' @ [CR] @ ''B|2''"
    by blast
  from 1 have "\<exists>m h. newHL7Message (''A|1'' @ [LF] @ ''B|2^3'' @ CRLF @ ''C|'') = Message (m, h) \<and>
      segments m \<noteq> [] \<and> toString m h = ''A|1'' @ CRLF @ ''B|2^3'' @ CRLF @ ''C|''"
    by simp
  with 2 show ?thesis by blast
qed

text \<open>
  The claim C6 as stated fails for two lines joined by a lone CR: the constructor returns
  a message and \<open>toString\<close> returns the text with its CR, not with CRLF. It also fails
  for a line named after an inherited property: the constructor throws.
\<close>

theorem roundtrip_lone_CR_counterexample:
  "isMessage (newHL7Message (''A|1'' @ [CR] @ ''B|2'')) \<and>
   toString (fst (messageOf (newHL7Message (''A|1'' @ [CR] @ ''B|2''))))
            (snd (messageOf (newHL7Message (''A|1'' @ [CR] @ ''B|2''))))
     = ''A|1'' @ [CR] @ ''B|2'' \<and>
   toString (fst (messageOf (newHL7Message (''A|1'' @ [CR] @ ''B|2''))))
            (snd (messageOf (newHL7Message (''A|1'' @ [CR] @ ''B|2''))))
     \<noteq> ''A|1'' @ CRLF @ ''B|2'' \<and>
   wellFormedLine ''toString|x'' \<and>
   thrown (newHL7Message ''toString|x'') = Some TypeError"
  by code_simp

section \<open>Absent and empty fields\<close>

text \<open>
  C7. For the segment of the line \<open>PID|1|\<close>, field 2 is present and empty and field 99 is
  absent; the indexed read of field 2 is a view of the empty field and the indexed read of
  field 99 is the absent marker. In the code \<open>getFields\<close> has three entries, the last one
  empty, and \<open>getField\<close> returns the empty string for both indices; the indexed read tests
  that string for truth, so \<open>segment[2]\<close> is the absent marker just as \<open>segment[99]\<close> is,
  and no view is created.
\<close>

theorem empty_field_read_as_absent:
  "getFields (segmentObjs (snd emptyFieldSegment) (fst emptyFieldSegment)) =
     [''PID'', ''1'', []] \<and>
   getField (segmentObjs (snd emptyFieldSegment) (fst emptyFieldSegment)) 2 = [] \<and>
   getField (segmentObjs (snd emptyFieldSegment) (fst emptyFieldSegment)) 99 = [] \<and>
   segmentIndexGet (fst emptyFieldSegment) 2 (snd emptyFieldSegment) =
     (None, snd emptyFieldSegment) \<and>
   segmentIndexGet (fst emptyFieldSegment) 99 (snd emptyFieldSegment) =
     (None, snd emptyFieldSegment)"
  by (simp add: segmentIndexGet_def getField_def getFields_def emptyFieldSegment_def
      newSegment_def mkSegment_def arrayGet_def orEmpty_def emptyHeap_def Let_def)

section \<open>Validation\<close>

lemma checkRule_append:
  "checkRule d n m h errs rule = errs @ checkRule d n m h [] rule"
  by (simp add: checkRule_def Let_def split: option.splits)

lemma foldl_checkRule:
  "foldl (checkRule d n m h) errs rules = errs @ foldl (checkRule d n m h) [] rules"
proof (induction rules arbitrary: errs)
  case Nil
  show ?case by simp
next
  case (Cons r rs)
  have "foldl (checkRule d n m h) errs (r # rs) =
        checkRule d n m h errs r @ foldl (checkRule d n m h) [] rs"
    using Cons.IH [of "checkRule d n m h errs r"] by simp
  also have "\<dots> = errs @ checkRule d n m h [] r @ foldl (checkRule d n m h) [] rs"
    using checkRule_append [of d n m h errs r] by simp
  also have "checkRule d n m h [] r @ foldl (checkRule d n m h) [] rs =
             foldl (checkRule d n m h) [] (r # rs)"
    using Cons.IH [of "checkRule d n m h [] r"] by simp
  finally show ?case .
qed

lemma checkRule_required_missing:
  assumes "required rule = Some True" and "trim (get m h (path rule)) = []"
  shows "checkRule d n m h errs rule = errs @ [requiredMissing rule]"
  using assms by (simp add: checkRule_def requiredMissing_def Let_def)

lemma errors_validate: "errors (validate d n rules m h) = foldl (checkRule d n m h) [] rules"
  by (simp add: validate_def Let_def)

text \<open>
  C9. A rule with \<open>required\<close> set whose path reads as missing, empty or blank adds exactly
  one error, the required-field error, whatever else the rule sets; the rules before and
  after it add the errors they add on their own. \<open>isValid\<close> holds exactly when the list of
  errors is empty.
\<close>

theorem required_missing_short_circuit:
  assumes "required rule = Some True" and "trim (get m h (path rule)) = []"
  shows "errors (validate d n (before @ rule # after) m h) =
           errors (validate d n before m h) @ [requiredMissing rule] @
           errors (validate d n after m h) \<and>
         message (requiredMissing rule) = ''The required field is missing.'' \<and>
         (isValid (validate d n rules m h) \<longleftrightarrow> errors (validate d n rules m h) = [])"
proof (intro conjI)
  have "foldl (checkRule d n m h) [] (before @ rule # after) =
        foldl (checkRule d n m h) (checkRule d n m h (foldl (checkRule d n m h) [] before) rule) after"
    by simp
  also have "\<dots> = checkRule d n m h (foldl (checkRule d n m h) [] before) rule @
                  foldl (checkRule d n m h) [] after"
    by (rule foldl_checkRule)
  also have "checkRule d n m h (foldl (checkRule d n m h) [] before) rule =
             foldl (checkRule d n m h) [] before @ [requiredMissing rule]"
    by (rule checkRule_required_missing [OF assms])
  finally show "errors (validate d n (before @ rule # after) m h) =
           errors (validate d n before m h) @ [requiredMissing rule] @
           errors (validate d n after m h)"
    by (simp add: errors_validate)
  show "message (requiredMissing rule) = ''The required field is missing.''"
    by (simp add: requiredMissing_def)
  show "isValid (validate d n rules m h) \<longleftrightarrow> errors (validate d n rules m h) = []"
    by (simp add: validate_def Let_def)
qed

theorem required_missing_short_circuit_witness:
  "errors (validate neverNaN neverNaN [demoLengthRule, demoRequiredRule, demoLengthRule]
             (fst pidMessage) (snd pidMessage)) =
     [\<lparr>errorPath = ''PID-4.1'', message = ''The value exceeds the maximum length of 2.''\<rparr>,
      \<lparr>errorPath = ''PID-99'', message = ''The required field is missing.''\<rparr>,
      \<lparr>errorPath = ''PID-4.1'', message = ''The value exceeds the maximum length of 2.''\<rparr>] \<and>
   isValid (validate neverNaN neverNaN [demoLengthRule, demoRequiredRule, demoLengthRule]
             (fst pidMessage) (snd pidMessage)) = False"
proof -
  have req: "required demoRequiredRule = Some True"
    by (simp add: demoRequiredRule_def)
  have missing: "trim (get (fst pidMessage) (snd pidMessage) (path demoRequiredRule)) = []"
    by code_simp
  have one: "errors (validate neverNaN neverNaN [demoLengthRule] (fst pidMessage) (snd pidMessage)) =
     [\<lparr>errorPath = ''PID-4.1'', message = ''The value exceeds the maximum length of 2.''\<rparr>]"
    by code_simp
  have rm: "requiredMissing demoRequiredRule =
     \<lparr>errorPath = ''PID-99'', message = ''The required field is missing.''\<rparr>"
    by (simp add: requiredMissing_def demoRequiredRule_def)
  from required_missing_short_circuit [OF req missing, of neverNaN neverNaN "[demoLengthRule]"
      "[demoLengthRule]" "[demoLengthRule, demoRequiredRule, demoLengthRule]"]
  show ?thesis by (simp add: one rm)
qed

end
